theory Spec2Isabelle
  imports Complex_Main "HOL-Library.Word" "HOL-Library.Log_Nat" "HOL-Library.Multiset"
    "HOL-Library.Option_ord"
begin

section \<open>Strings\<close>

text \<open>
  A JavaScript string is a sequence of UTF-16 code units; \<^verbatim>\<open>length\<close>, \<^verbatim>\<open>slice\<close> and
  \<^verbatim>\<open>substring\<close> count and cut code units.
\<close>

type_synonym jsstring = "16 word list"

definition js_str :: "string \<Rightarrow> jsstring" where
  "js_str s = map (\<lambda>c. of_nat (of_char c)) s"

text \<open>
  \<^verbatim>\<open>String.prototype.slice(start, end)\<close>: a negative index counts from the end, both
  indices are clamped to the string, and an empty span gives the empty string.
\<close>

definition js_slice :: "'a list \<Rightarrow> int \<Rightarrow> int \<Rightarrow> 'a list" where
  "js_slice s start end =
     (let len = int (length s);
          from = (if start < 0 then max (len + start) 0 else min start len);
          to = (if end < 0 then max (len + end) 0 else min end len)
      in take (nat (to - from)) (drop (nat from) s))"

text \<open>
  \<^verbatim>\<open>String.prototype.substring(start, end)\<close> on non-negative indices: both are clamped
  to the string and swapped when \<open>start > end\<close>.
\<close>

definition js_substring :: "'a list \<Rightarrow> nat \<Rightarrow> nat \<Rightarrow> 'a list" where
  "js_substring s start end =
     (let a = min start (length s); b = min end (length s)
      in take (max a b - min a b) (drop (min a b) s))"

section \<open>EmbeddingService.chunkText\<close>

text \<open>
  \<^verbatim>\<open>
  chunkText(text, chunkSize = 2000) {
    const chunks = [];
    for (let i = 0; i < text.length; i += chunkSize) {
      chunks.push(text.slice(i, i + chunkSize));
    }
    return chunks;
  }
  \<close>
  The loop does not end when \<open>chunkSize \<le> 0\<close> and the text is not empty, so it is a
  partial function: \<open>None\<close> is "does not return".
\<close>

partial_function (option) chunk_loop ::
  "jsstring \<Rightarrow> int \<Rightarrow> int \<Rightarrow> jsstring list \<Rightarrow> jsstring list option" where
  "chunk_loop text chunkSize i chunks =
     (if i < int (length text)
      then chunk_loop text chunkSize (i + chunkSize) (chunks @ [js_slice text i (i + chunkSize)])
      else Some chunks)"

declare chunk_loop.simps [code]

text \<open>The optional second argument: \<open>None\<close> is an omitted argument, which takes the default.\<close>

definition chunk_size_or_default :: "int option \<Rightarrow> int" where
  "chunk_size_or_default a = (case a of None \<Rightarrow> 2000 | Some c \<Rightarrow> c)"

definition chunkText :: "jsstring \<Rightarrow> int option \<Rightarrow> jsstring list option" where
  "chunkText text chunkSize_arg = chunk_loop text (chunk_size_or_default chunkSize_arg) 0 []"

section \<open>Numbers\<close>

text \<open>
  A JavaScript number is an IEEE-754 binary64 value. A finite double is represented by the
  rational it denotes, and every arithmetic operation computes the exact result and rounds
  it to the nearest double, ties to even, overflowing to an infinity. The two zeros are
  identified (they are equal under \<^verbatim>\<open>===\<close>).
\<close>

datatype jsnum = Num rat | PosInf | NegInf | NaN

text \<open>\<open>floor_log2 x\<close> is the integer \<open>k\<close> with \<open>2\<^sup>k \<le> x < 2\<^sup>k\<^sup>+\<^sup>1\<close>, for \<open>x > 0\<close>.\<close>

definition floor_log2 :: "rat \<Rightarrow> int" where
  "floor_log2 x =
     (let (p, q) = quotient_of x; d = bitlen p - bitlen q
      in if 2 powi d \<le> x then d else d - 1)"

definition round_half_even :: "rat \<Rightarrow> int" where
  "round_half_even y =
     (let f = \<lfloor>y\<rfloor>; r = y - of_int f
      in if r < 1 / 2 then f
         else if 1 / 2 < r then f + 1
         else if even f then f else f + 1)"

text \<open>
  Rounding to a binary format with \<open>p\<close> significant bits, least exponent \<open>emin\<close> of the last
  place (subnormal numbers) and overflow from \<open>2\<^bsup>emax\<^esup>\<close> on: the value is rounded to a
  multiple of \<open>2\<^sup>e\<close>, where \<open>e\<close> is the exponent of the last place of the binade of \<open>x\<close>.
\<close>

definition round_binary :: "int \<Rightarrow> int \<Rightarrow> int \<Rightarrow> rat \<Rightarrow> jsnum" where
  "round_binary p emin emax x =
     (if x = 0 then Num 0
      else let e = max (floor_log2 \<bar>x\<bar> - (p - 1)) emin;
               y = of_int (round_half_even (x / 2 powi e)) * 2 powi e
           in if 2 powi emax \<le> y then PosInf
              else if y \<le> - (2 powi emax) then NegInf
              else Num y)"

definition to_double :: "rat \<Rightarrow> jsnum" where
  "to_double = round_binary 53 (- 1074) 1024"

definition to_float32 :: "rat \<Rightarrow> jsnum" where
  "to_float32 = round_binary 24 (- 149) 128"

text \<open>\<open>a + b\<close> on numbers.\<close>

fun js_add :: "jsnum \<Rightarrow> jsnum \<Rightarrow> jsnum" where
  "js_add NaN _ = NaN"
| "js_add _ NaN = NaN"
| "js_add PosInf NegInf = NaN"
| "js_add NegInf PosInf = NaN"
| "js_add PosInf _ = PosInf"
| "js_add _ PosInf = PosInf"
| "js_add NegInf _ = NegInf"
| "js_add _ NegInf = NegInf"
| "js_add (Num a) (Num b) = to_double (a + b)"

text \<open>\<open>a - b\<close> on numbers.\<close>

fun js_sub :: "jsnum \<Rightarrow> jsnum \<Rightarrow> jsnum" where
  "js_sub NaN _ = NaN"
| "js_sub _ NaN = NaN"
| "js_sub PosInf PosInf = NaN"
| "js_sub NegInf NegInf = NaN"
| "js_sub PosInf _ = PosInf"
| "js_sub _ NegInf = PosInf"
| "js_sub NegInf _ = NegInf"
| "js_sub _ PosInf = NegInf"
| "js_sub (Num a) (Num b) = to_double (a - b)"

text \<open>\<open>a / n\<close> where \<open>n\<close> is the length of an array (a non-negative integer).\<close>

fun js_div_length :: "jsnum \<Rightarrow> nat \<Rightarrow> jsnum" where
  "js_div_length NaN n = NaN"
| "js_div_length PosInf n = PosInf"
| "js_div_length NegInf n = NegInf"
| "js_div_length (Num a) n =
     (if n = 0 then (if a = 0 then NaN else if 0 < a then PosInf else NegInf)
      else to_double (a / of_nat n))"

text \<open>
  A value held by \<^verbatim>\<open>response.data.embedding\<close>: an array of numbers, or \<^verbatim>\<open>undefined\<close>
  when the reply has no such field. Replies of any other shape are not modelled.
\<close>

datatype jsval = Undefined | Arr "jsnum list"

text \<open>
  \<open>emb[i]\<close> read as a number: an index past the end gives \<^verbatim>\<open>undefined\<close>, which \<open>+\<close>
  converts to \<open>NaN\<close>.
\<close>

definition js_index :: "jsnum list \<Rightarrow> nat \<Rightarrow> jsnum" where
  "js_index v i = (if i < length v then v ! i else NaN)"

text \<open>\<^verbatim>\<open>new Float32Array(x)\<close>: each element rounded to single precision; no elements for \<^verbatim>\<open>undefined\<close>.\<close>

fun float32 :: "jsnum \<Rightarrow> jsnum" where
  "float32 (Num a) = to_float32 a"
| "float32 x = x"

fun Float32Array :: "jsval \<Rightarrow> jsnum list" where
  "Float32Array Undefined = []"
| "Float32Array (Arr v) = map float32 v"

section \<open>The environment and the store\<close>

datatype error = ExtractionFailed | EmbeddingFailed | TypeError | SqlError

text \<open>
  The Embedding Provider answers a request with the value of the reply's \<^verbatim>\<open>embedding\<close>
  field, or the request fails (unreachable, status other than 2xx, no body).
\<close>

datatype provider_reply = Unreachable | Reply jsval

record doc_row =
  row_id :: nat
  filename :: jsstring
  content_preview :: jsstring
  upload_date :: nat

record emb_row =
  emb_id :: nat
  emb_doc_id :: nat
  vector :: "jsnum list"

text \<open>
  A value of type REAL that a statement of SQLite yields: a number, or NULL (\<open>None\<close>).
  SQLite keeps no NaN: a function result that is NaN becomes NULL. In the order of
  \<^verbatim>\<open>ORDER BY ... ASC\<close> NULL comes before every number, which is the order of
  \<^typ>\<open>rat option\<close>.
\<close>

type_synonym sql_real = "rat option"

text \<open>
  What surrounds one request: the text extractor, the provider (its answer may depend on
  the requests made before), the clock, the file system, the distance function of the
  vector extension, and whether a statement fails. The distance function either makes the
  statement fail (\<open>None\<close>, as for vectors of different lengths) or yields a value, which is
  NULL (\<open>Some None\<close>, as for a stored vector that is zero or holds a NaN) or a number.
\<close>

record env =
  extractText :: "jsstring \<Rightarrow> error + jsstring"
  provider :: "jsstring list \<Rightarrow> jsstring \<Rightarrow> provider_reply"
  now :: nat
  insert_document_fails :: bool
  insert_embedding_fails :: bool
  select_fails :: bool
  vec_distance_cosine :: "jsnum list \<Rightarrow> jsnum list \<Rightarrow> sql_real option"
  existsSync :: "jsstring \<Rightarrow> bool"
  path_join :: "jsstring \<Rightarrow> jsstring \<Rightarrow> jsstring"

text \<open>
  The database (two tables and the counters of their AUTOINCREMENT keys) and the log of
  the texts sent to the provider.
\<close>

record world =
  documents :: "doc_row list"
  embeddings :: "emb_row list"
  doc_seq :: nat
  emb_seq :: nat
  provider_calls :: "jsstring list"

definition init_world :: world where
  "init_world = \<lparr>documents = [], embeddings = [], doc_seq = 0, emb_seq = 0, provider_calls = []\<rparr>"

section \<open>EmbeddingService\<close>

text \<open>
  \<^verbatim>\<open>
  async generateEmbedding(text) {
    try {
      const response = await axios.post(this.embeddingUrl, { text });
      return response.data.embedding;
    } catch (error) {
      throw new Error('Failed to generate embedding');
    }
  }
  \<close>
\<close>

definition generateEmbedding ::
  "env \<Rightarrow> jsstring \<Rightarrow> jsstring list \<Rightarrow> (error + jsval) \<times> jsstring list" where
  "generateEmbedding ev text calls =
     (case provider ev calls text of
        Unreachable \<Rightarrow> (Inl EmbeddingFailed, calls @ [text])
      | Reply v \<Rightarrow> (Inr v, calls @ [text]))"

text \<open>The loop over the chunks: one request per chunk, in order, stopping at the first failure.\<close>

fun embed_chunks ::
  "env \<Rightarrow> jsstring list \<Rightarrow> jsval list \<Rightarrow> jsstring list \<Rightarrow> (error + jsval list) \<times> jsstring list" where
  "embed_chunks ev [] embs calls = (Inr embs, calls)"
| "embed_chunks ev (chunk # chunks) embs calls =
     (case generateEmbedding ev chunk calls of
        (Inl e, calls') \<Rightarrow> (Inl e, calls')
      | (Inr embedding, calls') \<Rightarrow> embed_chunks ev chunks (embs @ [embedding]) calls')"

text \<open>
  \<^verbatim>\<open>embeddings.reduce((sum, emb) => sum + emb[i], 0)\<close>; reading \<open>emb[i]\<close> of
  \<^verbatim>\<open>undefined\<close> throws a TypeError.
\<close>

fun reduce_sum :: "jsval list \<Rightarrow> nat \<Rightarrow> jsnum \<Rightarrow> error + jsnum" where
  "reduce_sum [] i acc = Inr acc"
| "reduce_sum (Undefined # embs) i acc = Inl TypeError"
| "reduce_sum (Arr v # embs) i acc = reduce_sum embs i (js_add acc (js_index v i))"

text \<open>\<open>map\<close> with a callback that may throw: the first exception ends it.\<close>

fun map_throwing :: "('a \<Rightarrow> error + 'b) \<Rightarrow> 'a list \<Rightarrow> error + 'b list" where
  "map_throwing f [] = Inr []"
| "map_throwing f (x # xs) =
     (case f x of
        Inl e \<Rightarrow> Inl e
      | Inr y \<Rightarrow> (case map_throwing f xs of Inl e \<Rightarrow> Inl e | Inr ys \<Rightarrow> Inr (y # ys)))"

text \<open>
  \<^verbatim>\<open>
  const avgEmbedding = embeddings[0].map((_, i) =>
    embeddings.reduce((sum, emb) => sum + emb[i], 0) / embeddings.length
  );
  \<close>
\<close>

definition avgEmbedding :: "jsval list \<Rightarrow> error + jsnum list" where
  "avgEmbedding embs =
     (case embs of
        [] \<Rightarrow> Inl TypeError
      | Undefined # _ \<Rightarrow> Inl TypeError
      | Arr v0 # _ \<Rightarrow>
          map_throwing
            (\<lambda>i. case reduce_sum embs i (Num 0) of
                   Inl e \<Rightarrow> Inl e
                 | Inr s \<Rightarrow> Inr (js_div_length s (length embs)))
            [0..<length v0])"

text \<open>
  \<^verbatim>\<open>
  async generateEmbeddingsForDocument(content) {
    const chunks = this.chunkText(content);
    const embeddings = [];
    for (const chunk of chunks) {
      const embedding = await this.generateEmbedding(chunk);
      embeddings.push(embedding);
    }
    if (embeddings.length === 0) return null;
    const avgEmbedding = ...;
    return avgEmbedding;
  }
  \<close>
  The result is \<open>None\<close> when the call does not return, else the outcome (\<open>Inr None\<close> is
  \<^verbatim>\<open>null\<close>) and the log of provider requests.
\<close>

definition generateEmbeddingsForDocument ::
  "env \<Rightarrow> jsstring \<Rightarrow> jsstring list \<Rightarrow> ((error + jsnum list option) \<times> jsstring list) option" where
  "generateEmbeddingsForDocument ev content calls =
     (case chunkText content None of
        None \<Rightarrow> None
      | Some chunks \<Rightarrow>
          Some (case embed_chunks ev chunks [] calls of
                  (Inl e, calls') \<Rightarrow> (Inl e, calls')
                | (Inr embs, calls') \<Rightarrow>
                    if length embs = 0 then (Inr None, calls')
                    else (case avgEmbedding embs of
                            Inl e \<Rightarrow> (Inl e, calls')
                          | Inr avg \<Rightarrow> (Inr (Some avg), calls'))))"

section \<open>DocumentService\<close>

record save_result =
  saved_id :: nat
  saved_content :: jsstring

text \<open>
  \<^verbatim>\<open>saveDocument(filename, filePath)\<close>: extract the text, insert the document row with
  the preview, then try to embed the text and to insert the vector. The promise is rejected
  (\<open>Inl\<close>) when the extraction or the first insert fails, and resolved with
  \<^verbatim>\<open>{ id: docId, content }\<close> otherwise, also when the embedding throws. An error of the second
  insert is only logged. \<open>None\<close>: the call does not return.
\<close>

definition saveDocument ::
  "env \<Rightarrow> jsstring \<Rightarrow> jsstring \<Rightarrow> world \<Rightarrow> ((error + save_result) \<times> world) option" where
  "saveDocument ev fname filePath w =
     (case extractText ev filePath of
        Inl e \<Rightarrow> Some (Inl e, w)
      | Inr content \<Rightarrow>
          let contentPreview =
                js_substring content 0 500 @ (if length content > 500 then js_str ''...'' else js_str '''')
          in if insert_document_fails ev then Some (Inl SqlError, w)
             else
               let docId = doc_seq w + 1;
                   w1 = w\<lparr>documents := (documents w @
                            [\<lparr>row_id = docId, filename = fname,
                              content_preview = contentPreview, upload_date = now ev\<rparr>]),
                          doc_seq := docId\<rparr>;
                   resolved = Inr \<lparr>saved_id = docId, saved_content = content\<rparr>
               in (case generateEmbeddingsForDocument ev content (provider_calls w1) of
                    None \<Rightarrow> None
                  | Some (Inl embeddingError, calls) \<Rightarrow>
                      Some (resolved, w1\<lparr>provider_calls := calls\<rparr>)
                  | Some (Inr None, calls) \<Rightarrow>
                      Some (resolved, w1\<lparr>provider_calls := calls\<rparr>)
                  | Some (Inr (Some embedding), calls) \<Rightarrow>
                      let w2 = w1\<lparr>provider_calls := calls\<rparr>
                      in Some (resolved,
                           if insert_embedding_fails ev then w2
                           else w2\<lparr>embeddings := (embeddings w2 @
                                     [\<lparr>emb_id = emb_seq w2 + 1, emb_doc_id = docId,
                                       vector = map float32 embedding\<rparr>]),
                                   emb_seq := emb_seq w2 + 1\<rparr>)))"

text \<open>
  \<^verbatim>\<open>LIMIT ? OFFSET ?\<close> of SQLite: a negative limit is no limit, a negative offset is 0.
\<close>

definition sql_limit_offset :: "int \<Rightarrow> int \<Rightarrow> 'a list \<Rightarrow> 'a list" where
  "sql_limit_offset limit offset rows =
     (let rest = drop (nat offset) rows in if limit < 0 then rest else take (nat limit) rest)"

text \<open>
  \<^verbatim>\<open>FROM documents d JOIN embeddings e ON d.id = e.doc_id\<close>. The key of \<open>documents\<close> is
  its row id and \<open>embeddings.doc_id\<close> has no index, so SQLite scans the embeddings table in
  the order of its rows and looks the document of each row up: the joined rows come in the
  order of the embeddings table.
\<close>

definition joined :: "world \<Rightarrow> (doc_row \<times> emb_row) list" where
  "joined w =
     concat (map (\<lambda>e. map (\<lambda>d. (d, e)) (filter (\<lambda>d. row_id d = emb_doc_id e) (documents w)))
                 (embeddings w))"

record knn_row =
  knn_doc :: doc_row
  knn_distance :: sql_real

text \<open>
  The rows of the search statement before \<^verbatim>\<open>LIMIT\<close> and \<^verbatim>\<open>OFFSET\<close>: every joined row
  with \<^verbatim>\<open>vec_distance_cosine(e.vector, ?)\<close>, in the order of \<^verbatim>\<open>ORDER BY distance ASC\<close>:
  the rows whose distance is NULL first, then the others in ascending order of the distance,
  rows of equal distance in the order of the join. The statement fails when the distance
  function fails on a row.
\<close>

definition ranked_rows :: "env \<Rightarrow> world \<Rightarrow> jsnum list \<Rightarrow> knn_row list option" where
  "ranked_rows ev w queryBuffer =
     (if select_fails ev then None
      else map_option (sort_key knn_distance)
             (those (map (\<lambda>(d, e). map_option (\<lambda>dist. \<lparr>knn_doc = d, knn_distance = dist\<rparr>)
                                      (vec_distance_cosine ev (vector e) queryBuffer))
                         (joined w))))"

record search_result =
  res_id :: nat
  res_filename :: jsstring
  res_preview :: jsstring
  res_uploadDate :: nat
  res_similarity :: jsnum

text \<open>
  \<open>row.distance\<close> as an operand of \<open>-\<close>. The driver gives \<^verbatim>\<open>null\<close> for NULL, and \<open>-\<close>
  converts its operands to numbers: \<^verbatim>\<open>null\<close> to 0.
\<close>

definition js_operand :: "sql_real \<Rightarrow> jsnum" where
  "js_operand x = (case x of None \<Rightarrow> Num 0 | Some d \<Rightarrow> Num d)"

definition to_result :: "knn_row \<Rightarrow> search_result" where
  "to_result row =
     \<lparr>res_id = row_id (knn_doc row), res_filename = filename (knn_doc row),
      res_preview = content_preview (knn_doc row), res_uploadDate = upload_date (knn_doc row),
      res_similarity = js_sub (Num 1) (js_operand (knn_distance row))\<rparr>"

text \<open>
  \<^verbatim>\<open>searchDocuments(query, limit = 10, offset = 0)\<close>: embed the query with one provider
  request, run the statement, and map every row to a result with
  \<^verbatim>\<open>similarity: 1 - row.distance\<close>.
\<close>

definition searchDocuments ::
  "env \<Rightarrow> jsstring \<Rightarrow> int option \<Rightarrow> int option \<Rightarrow> world \<Rightarrow> (error + search_result list) \<times> world" where
  "searchDocuments ev query limit_arg offset_arg w =
     (let limit = (case limit_arg of None \<Rightarrow> 10 | Some l \<Rightarrow> l);
          offset = (case offset_arg of None \<Rightarrow> 0 | Some offset \<Rightarrow> offset)
      in case generateEmbedding ev query (provider_calls w) of
           (Inl e, calls) \<Rightarrow> (Inl e, w\<lparr>provider_calls := calls\<rparr>)
         | (Inr queryEmbedding, calls) \<Rightarrow>
             let w' = w\<lparr>provider_calls := calls\<rparr>;
                 queryBuffer = Float32Array queryEmbedding
             in (case ranked_rows ev w' queryBuffer of
                   None \<Rightarrow> (Inl SqlError, w')
                 | Some rows \<Rightarrow> (Inr (map to_result (sql_limit_offset limit offset rows)), w')))"

section \<open>Routes\<close>

datatype 'a response = Ok 'a | Failed nat jsstring

record search_body =
  body_query :: "jsstring option"
  body_limit :: "int option"
  body_page :: "int option"

record search_reply =
  reply_results :: "search_result list"
  reply_page :: int
  reply_limit :: int

text \<open>
  \<^verbatim>\<open>
  const { query, limit = 10, page = 1 } = req.body;
  if (!query) return res.status(400).json({ error: 'Query is required' });
  const offset = (page - 1) * limit;
  const results = await documentService.searchDocuments(query, limit, offset);
  res.json({ results, page, limit });
  \<close>
  with status 500 when the promise is rejected. \<open>limit\<close> and \<open>page\<close> are taken to be integers.
\<close>

definition search_route :: "env \<Rightarrow> search_body \<Rightarrow> world \<Rightarrow> search_reply response \<times> world" where
  "search_route ev body w =
     (let limit = (case body_limit body of None \<Rightarrow> 10 | Some l \<Rightarrow> l);
          page = (case body_page body of None \<Rightarrow> 1 | Some p \<Rightarrow> p)
      in case body_query body of
           None \<Rightarrow> (Failed 400 (js_str ''Query is required''), w)
         | Some query \<Rightarrow>
             if query = [] then (Failed 400 (js_str ''Query is required''), w)
             else
               let offset = (page - 1) * limit
               in (case searchDocuments ev query (Some limit) (Some offset) w of
                     (Inl e, w') \<Rightarrow> (Failed 500 (js_str ''Failed to perform search''), w')
                   | (Inr results, w') \<Rightarrow>
                       (Ok \<lparr>reply_results = results, reply_page = page, reply_limit = limit\<rparr>, w')))"

record process_reply =
  reply_message :: jsstring
  reply_documentId :: nat
  reply_preview :: jsstring

text \<open>
  \<^verbatim>\<open>
  const filePath = path.join('./uploads', filename);
  if (!fs.existsSync(filePath)) return res.status(404).json({ error: 'File not found' });
  const result = await documentService.saveDocument(filename, filePath);
  res.json({
    message: 'Document processed and indexed successfully',
    documentId: result.id,
    preview: result.content.substring(0, 200) + '...'
  });
  \<close>
\<close>

definition process_route ::
  "env \<Rightarrow> jsstring option \<Rightarrow> world \<Rightarrow> (process_reply response \<times> world) option" where
  "process_route ev filename_arg w =
     (case filename_arg of
        None \<Rightarrow> Some (Failed 400 (js_str ''filename is required''), w)
      | Some fname \<Rightarrow>
          if fname = [] then Some (Failed 400 (js_str ''filename is required''), w)
          else
            let filePath = path_join ev (js_str ''./uploads'') fname
            in if \<not> existsSync ev filePath then Some (Failed 404 (js_str ''File not found''), w)
               else (case saveDocument ev fname filePath w of
                       None \<Rightarrow> None
                     | Some (Inl e, w') \<Rightarrow>
                         Some (Failed 500 (js_str ''Failed to process document''), w')
                     | Some (Inr result, w') \<Rightarrow>
                         Some (Ok \<lparr>reply_message = js_str ''Document processed and indexed successfully'',
                                   reply_documentId = saved_id result,
                                   reply_preview =
                                     js_substring (saved_content result) 0 200 @ js_str ''...''\<rparr>,
                               w')))"

record doc_summary =
  sum_id :: nat
  sum_filename :: jsstring
  sum_preview :: jsstring
  sum_uploadDate :: nat

definition to_summary :: "doc_row \<Rightarrow> doc_summary" where
  "to_summary doc =
     \<lparr>sum_id = row_id doc, sum_filename = filename doc,
      sum_preview = content_preview doc, sum_uploadDate = upload_date doc\<rparr>"

record documents_reply =
  reply_documents :: "doc_summary list"
  list_page :: int
  list_limit :: int

text \<open>
  \<^verbatim>\<open>
  const { limit = 50, page = 1 } = req.query;
  const offset = (page - 1) * parseInt(limit);
  SELECT id, filename, content_preview, upload_date FROM documents
    ORDER BY upload_date DESC LIMIT ? OFFSET ?
  \<close>
  with \<open>limit\<close> and \<open>page\<close> taken as the integers they parse to.
\<close>

definition documents_route :: "env \<Rightarrow> int option \<Rightarrow> int option \<Rightarrow> world \<Rightarrow> documents_reply response" where
  "documents_route ev limit_arg page_arg w =
     (let limit = (case limit_arg of None \<Rightarrow> 50 | Some l \<Rightarrow> l);
          page = (case page_arg of None \<Rightarrow> 1 | Some p \<Rightarrow> p);
          offset = (page - 1) * limit
      in if select_fails ev then Failed 500 (js_str ''Failed to list documents'')
         else Ok \<lparr>reply_documents =
                     map to_summary (sql_limit_offset limit offset (rev (sort_key upload_date (documents w)))),
                   list_page = page, list_limit = limit\<rparr>)"

section \<open>Reachable states\<close>

text \<open>
  The store changes only through the two operations of the service: \<open>evolves w w'\<close> when
  \<open>w'\<close> comes from \<open>w\<close> by a sequence of them, in any environments. A state is reachable
  when it comes from the empty store.
\<close>

inductive evolves :: "world \<Rightarrow> world \<Rightarrow> bool" where
  evolves_refl: "evolves w w"
| evolves_save:
    "evolves w w1 \<Longrightarrow> saveDocument ev fname filePath w1 = Some (r, w2) \<Longrightarrow> evolves w w2"
| evolves_search:
    "evolves w w1 \<Longrightarrow> searchDocuments ev query limit_arg offset_arg w1 = (r', w2) \<Longrightarrow> evolves w w2"

definition reachable :: "world \<Rightarrow> bool" where
  "reachable w = evolves init_world w"

text \<open>A document has a stored vector when a row of the embeddings table refers to it.\<close>

definition has_vector :: "world \<Rightarrow> nat \<Rightarrow> bool" where
  "has_vector w i = (\<exists>e\<in>set (embeddings w). emb_doc_id e = i)"

section \<open>Well-formed numbers and sample environments\<close>

text \<open>
  A value \<open>Num a\<close> stands for a double only when \<open>a\<close> is one: rounding leaves it unchanged.
  Numbers decoded from a JSON reply are of this kind.
\<close>

fun representable :: "jsnum \<Rightarrow> bool" where
  "representable (Num a) = (to_double a = Num a)"
| "representable x = True"

text \<open>
  The replies of the provider to a list of chunks sent one after the other, starting from
  the log \<open>calls\<close>.
\<close>

fun provider_replies :: "env \<Rightarrow> jsstring list \<Rightarrow> jsstring list \<Rightarrow> provider_reply list" where
  "provider_replies ev [] calls = []"
| "provider_replies ev (chunk # chunks) calls =
     provider ev calls chunk # provider_replies ev chunks (calls @ [chunk])"

text \<open>
  An environment in which everything works: the extractor reads \<open>abc\<close>, the provider answers
  every request with the vector \<open>(1, 0)\<close>, every stored vector is at distance 0.
\<close>

definition sample_env :: env where
  "sample_env =
     \<lparr>extractText = (\<lambda>p. Inr (js_str ''abc'')),
      provider = (\<lambda>calls text. Reply (Arr [Num 1, Num 0])),
      now = 0,
      insert_document_fails = False,
      insert_embedding_fails = False,
      select_fails = False,
      vec_distance_cosine = (\<lambda>a b. Some (Some 0)),
      existsSync = (\<lambda>p. True),
      path_join = (\<lambda>a b. a @ b)\<rparr>"

text \<open>
  The provider answers the first request with a vector of length 2 and every later request
  with a vector of length 1.
\<close>

definition mismatch_env :: env where
  "mismatch_env =
     sample_env\<lparr>provider :=
       (\<lambda>calls text. if calls = [] then Reply (Arr [Num 1, Num 2]) else Reply (Arr [Num 3]))\<rparr>"

text \<open>The extractor reads a text of 600 characters.\<close>

definition long_text_env :: env where
  "long_text_env = sample_env\<lparr>extractText := (\<lambda>p. Inr (replicate 600 97))\<rparr>"

text \<open>
  A store with two documents, each with a vector, and an environment in which a stored
  vector is at distance 0 from a query vector equal to it and at distance 1 from any other.
\<close>

definition two_docs_world :: world where
  "two_docs_world =
     \<lparr>documents =
        [\<lparr>row_id = 1, filename = js_str ''a.txt'', content_preview = js_str ''abc'', upload_date = 0\<rparr>,
         \<lparr>row_id = 2, filename = js_str ''b.txt'', content_preview = js_str ''abc'', upload_date = 1\<rparr>],
      embeddings =
        [\<lparr>emb_id = 1, emb_doc_id = 1, vector = [Num 0, Num 1]\<rparr>,
         \<lparr>emb_id = 2, emb_doc_id = 2, vector = [Num 1, Num 0]\<rparr>],
      doc_seq = 2, emb_seq = 2, provider_calls = []\<rparr>"

definition ranking_env :: env where
  "ranking_env =
     sample_env\<lparr>vec_distance_cosine :=
       (\<lambda>a b. if a = b then Some (Some 0) else Some (Some 1))\<rparr>"

text \<open>
  The embedding of a text does not yield a vector: it throws, or returns \<^verbatim>\<open>null\<close>.
\<close>

definition embedding_failed_or_skipped :: "env \<Rightarrow> jsstring \<Rightarrow> world \<Rightarrow> bool" where
  "embedding_failed_or_skipped ev content w =
     (case generateEmbeddingsForDocument ev content (provider_calls w) of
        None \<Rightarrow> False
      | Some (Inl e, calls) \<Rightarrow> True
      | Some (Inr None, calls) \<Rightarrow> True
      | Some (Inr (Some v), calls) \<Rightarrow> False)"

text \<open>An environment whose provider cannot be reached.\<close>

definition unreachable_env :: env where
  "unreachable_env = sample_env\<lparr>provider := (\<lambda>calls text. Unreachable)\<rparr>"

definition one_doc_world :: world where
  "one_doc_world =
     \<lparr>documents =
        [\<lparr>row_id = 1, filename = js_str ''a.txt'', content_preview = js_str ''abc'', upload_date = 0\<rparr>],
      embeddings = [], doc_seq = 1, emb_seq = 0, provider_calls = [js_str ''abc'']\<rparr>"

text \<open>
  The exact left-to-right sums of a list of numbers, started at \<open>acc\<close>, are all doubles: no
  addition rounds.
\<close>

fun sums_exact :: "rat \<Rightarrow> rat list \<Rightarrow> bool" where
  "sums_exact acc [] = True"
| "sums_exact acc (x # xs) = (to_double (acc + x) = Num (acc + x) \<and> sums_exact (acc + x) xs)"

text \<open>Position \<open>i\<close> of every vector of a list, and the vectors as values of the program.\<close>

definition column :: "rat list list \<Rightarrow> nat \<Rightarrow> rat list" where
  "column vs i = map (\<lambda>v. v ! i) vs"

definition arrays_of :: "rat list list \<Rightarrow> jsval list" where
  "arrays_of vs = map Arr (map (map Num) vs)"

text \<open>
  Two providers that answer the three chunks of a document with the same three vectors, in
  different orders.
\<close>

definition order_env_a :: env where
  "order_env_a =
     sample_env\<lparr>provider :=
       (\<lambda>calls text. Reply (Arr [Num (if length calls = 0 then 9007199254740992
                                       else if length calls = 1 then 1
                                       else - 9007199254740992)]))\<rparr>"

definition order_env_b :: env where
  "order_env_b =
     sample_env\<lparr>provider :=
       (\<lambda>calls text. Reply (Arr [Num (if length calls = 0 then 9007199254740992
                                       else if length calls = 1 then - 9007199254740992
                                       else 1)]))\<rparr>"

text \<open>
  A store in which the first document has a vector with a NaN, as the embedding of a document
  leaves it when the provider answers its two chunks with vectors of lengths 2 and 1, and the
  second document has the vector \<open>(1, 0)\<close>; it is made by two calls of \<open>saveDocument\<close>, the
  first in \<open>nan_store_env\<close>. In \<open>null_distance_env\<close> the distance of a vector with a NaN is
  NULL, that of equal vectors is 0 and that of other vectors is 1.
\<close>

definition nan_store_env :: env where
  "nan_store_env = mismatch_env\<lparr>extractText := (\<lambda>p. Inr (replicate 2001 97))\<rparr>"

definition nan_world :: world where
  "nan_world =
     \<lparr>documents =
        [\<lparr>row_id = 1, filename = js_str ''n.txt'',
          content_preview = replicate 500 97 @ js_str ''...'', upload_date = 0\<rparr>,
         \<lparr>row_id = 2, filename = js_str ''a.txt'', content_preview = js_str ''abc'', upload_date = 0\<rparr>],
      embeddings =
        [\<lparr>emb_id = 1, emb_doc_id = 1, vector = [Num 2, NaN]\<rparr>,
         \<lparr>emb_id = 2, emb_doc_id = 2, vector = [Num 1, Num 0]\<rparr>],
      doc_seq = 2, emb_seq = 2,
      provider_calls = [replicate 2000 97, [97], js_str ''abc'']\<rparr>"

definition null_distance_env :: env where
  "null_distance_env =
     sample_env\<lparr>vec_distance_cosine :=
       (\<lambda>a b. if NaN \<in> set a \<or> NaN \<in> set b then Some None
              else if a = b then Some (Some 0) else Some (Some 1))\<rparr>"

section \<open>Chunking: the loop returns the contiguous partition of the text\<close>

lemma ceil_div_int:
  fixes a C :: int
  assumes "0 < C"
  shows "- (- a div C) = (a + C - 1) div C"
proof (cases "a mod C = 0")
  case True
  then have "C dvd a" by (simp add: dvd_eq_mod_eq_0)
  then obtain q where "a = C * q" by (rule dvdE)
  then have a: "a = q * C" by (simp add: mult.commute)
  have "(q * C + C - 1) div C = ((C - 1) + q * C) div C" by (simp add: algebra_simps)
  also have "\<dots> = (C - 1) div C + q" using assms by simp
  also have "(C - 1) div C = 0" using assms by (intro div_pos_pos_trivial) auto
  finally have up: "(a + C - 1) div C = q" using a by simp
  have "- a = (- q) * C" using a by simp
  then have "- a div C = - q"
    using assms by (metis less_irrefl nonzero_mult_div_cancel_right)
  then show ?thesis using up by simp
next
  case False
  have r: "0 < a mod C" "a mod C < C" using False pos_mod_sign[OF assms, of a] pos_mod_bound[OF assms, of a] by auto
  have 1: "- a div C = - (a div C) - 1" using False assms by (simp add: zdiv_zminus1_eq_if)
  have e: "a + C - 1 = (a mod C - 1) + (a div C + 1) * C" by (simp add: algebra_simps)
  have "(a + C - 1) div C = ((a mod C - 1) + (a div C + 1) * C) div C" by (simp only: e)
  also have "\<dots> = (a mod C - 1) div C + (a div C + 1)" using assms by simp
  also have "(a mod C - 1) div C = 0" using r by (intro div_pos_pos_trivial) auto
  finally show ?thesis using 1 by simp
qed


lemma js_slice_chunk:
  assumes "0 \<le> i" "0 < C"
  shows "js_slice s i (i + C) = take (nat C) (drop (nat i) s)"
proof -
  have "nat (min (i + C) (int (length s)) - min i (int (length s))) = min (nat C) (length s - nat i)"
    using assms by (auto simp: min_def)
  then show ?thesis
    using assms by (simp add: js_slice_def Let_def min_def)
qed

lemma chunk_loop_spec:
  assumes "0 < C" "0 \<le> i"
  shows "\<exists>cs. chunk_loop t C i acc = Some (acc @ cs)
            \<and> concat cs = drop (nat i) t
            \<and> (\<forall>c\<in>set cs. length c \<le> nat C)
            \<and> (\<forall>k. Suc k < length cs \<longrightarrow> length (cs ! k) = nat C)
            \<and> int (length cs) = (if i < int (length t) then (int (length t) - i + C - 1) div C else 0)"
  using assms
proof (induction "length t - nat i" arbitrary: i acc rule: less_induct)
  case less
  show ?case
  proof (cases "i < int (length t)")
    case False
    then show ?thesis using less.prems by (subst chunk_loop.simps) simp
  next
    case True
    let ?c = "take (nat C) (drop (nat i) t)"
    have dec: "length t - nat (i + C) < length t - nat i"
      using True less.prems by linarith
    from less.hyps[OF dec, of "acc @ [?c]"] less.prems
    obtain cs where cs: "chunk_loop t C (i + C) (acc @ [?c]) = Some ((acc @ [?c]) @ cs)"
      "concat cs = drop (nat (i + C)) t"
      "\<forall>c\<in>set cs. length c \<le> nat C"
      "\<forall>k. Suc k < length cs \<longrightarrow> length (cs ! k) = nat C"
      "int (length cs) = (if i + C < int (length t) then (int (length t) - (i + C) + C - 1) div C else 0)"
      by force
    have run: "chunk_loop t C i acc = Some (acc @ (?c # cs))"
      using True cs(1) less.prems by (subst chunk_loop.simps) (simp add: js_slice_chunk)
    have cat: "concat (?c # cs) = drop (nat i) t"
    proof -
      have e: "nat (i + C) = nat C + nat i" using less.prems by linarith
      have "concat (?c # cs) = ?c @ concat cs" by simp
      also have "concat cs = drop (nat C) (drop (nat i) t)"
        unfolding cs(2) e by simp
      also have "?c @ drop (nat C) (drop (nat i) t) = drop (nat i) t"
        by (rule append_take_drop_id)
      finally show ?thesis .
    qed
    have bound: "\<forall>c\<in>set (?c # cs). length c \<le> nat C"
      using cs(3) by simp
    have full: "\<forall>k. Suc k < length (?c # cs) \<longrightarrow> length ((?c # cs) ! k) = nat C"
    proof (intro allI impI)
      fix k assume k: "Suc k < length (?c # cs)"
      show "length ((?c # cs) ! k) = nat C"
      proof (cases k)
        case 0
        with k have "cs \<noteq> []" by auto
        then have "i + C < int (length t)" using cs(5) by (auto split: if_splits)
        then show ?thesis using 0 less.prems by simp
      next
        case (Suc j)
        then show ?thesis using k cs(4) by simp
      qed
    qed
    have cnt: "int (length (?c # cs)) = (int (length t) - i + C - 1) div C"
    proof (cases "i + C < int (length t)")
      case True
      have "(int (length t) - i + C - 1) div C = (int (length t) - (i + C) + C - 1 + C) div C"
        by (simp add: algebra_simps)
      also have "\<dots> = (int (length t) - (i + C) + C - 1) div C + 1"
        using less.prems by simp
      finally show ?thesis using cs(5) True by simp
    next
      case False
      have "0 \<le> int (length t) - i - 1" using \<open>i < int (length t)\<close> by simp
      have "(int (length t) - i + C - 1) div C = (int (length t) - i - 1 + C) div C"
        by (simp add: algebra_simps)
      also have "\<dots> = (int (length t) - i - 1) div C + 1"
        using less.prems by simp
      also have "(int (length t) - i - 1) div C = 0"
        using False \<open>i < int (length t)\<close> less.prems by (intro div_pos_pos_trivial) auto
      finally show ?thesis using cs(5) False by simp
    qed
    have cnt': "int (length (?c # cs)) =
        (if i < int (length t) then (int (length t) - i + C - 1) div C else 0)"
      using cnt True by simp
    show ?thesis
      by (intro exI[of _ "?c # cs"] conjI run cat bound full cnt')
  qed
qed

text \<open>
  Claim C1. For every text \<open>t\<close> and chunk size \<open>C > 0\<close> (2000 when the argument is
  omitted), \<open>chunkText\<close> returns, and it returns exactly \<open>\<lceil>length t / C\<rceil>\<close> chunks; every
  chunk has at most \<open>C\<close> characters, every chunk but the last has exactly \<open>C\<close>, and the
  chunks concatenated in order are \<open>t\<close>.
\<close>

theorem chunkText_partition:
  assumes "0 < chunk_size_or_default a"
  shows "\<exists>chunks. chunkText t a = Some chunks
           \<and> int (length chunks) = \<lceil>rat_of_nat (length t) / rat_of_int (chunk_size_or_default a)\<rceil>
           \<and> (\<forall>c\<in>set chunks. int (length c) \<le> chunk_size_or_default a)
           \<and> (\<forall>k. Suc k < length chunks \<longrightarrow> int (length (chunks ! k)) = chunk_size_or_default a)
           \<and> concat chunks = t"
proof -
  let ?C = "chunk_size_or_default a"
  from chunk_loop_spec[of ?C 0 t "[]"] assms
  obtain cs where cs: "chunk_loop t ?C 0 [] = Some cs" "concat cs = t"
    "\<forall>c\<in>set cs. length c \<le> nat ?C"
    "\<forall>k. Suc k < length cs \<longrightarrow> length (cs ! k) = nat ?C"
    "int (length cs) = (if 0 < int (length t) then (int (length t) + ?C - 1) div ?C else 0)"
    by auto
  have ceil: "\<lceil>rat_of_nat (length t) / rat_of_int ?C\<rceil> = (int (length t) + ?C - 1) div ?C"
  proof -
    have "\<lceil>rat_of_int (int (length t)) / rat_of_int ?C\<rceil> = - (- int (length t) div ?C)"
      by (rule ceiling_divide_eq_div)
    also have "\<dots> = (int (length t) + ?C - 1) div ?C"
      using assms by (rule ceil_div_int)
    finally show ?thesis by simp
  qed
  have len: "int (length cs) = (int (length t) + ?C - 1) div ?C"
  proof (cases "t = []")
    case True
    have "(?C - 1) div ?C = 0" using assms by (intro div_pos_pos_trivial) auto
    then show ?thesis using cs(5) True by simp
  next
    case False
    then show ?thesis using cs(5) by simp
  qed
  have b: "\<forall>c\<in>set cs. int (length c) \<le> ?C"
    using cs(3) assms by auto
  have f: "\<forall>k. Suc k < length cs \<longrightarrow> int (length (cs ! k)) = ?C"
    using cs(4) assms by auto
  have run: "chunkText t a = Some cs"
    using cs(1) by (simp add: chunkText_def)
  show ?thesis
    using run len ceil b f cs(2) by auto
qed

theorem chunkText_partition_witness:
  "0 < chunk_size_or_default (Some 2)
   \<and> (\<exists>chunks. chunkText (js_str ''abcde'') (Some 2) = Some chunks
           \<and> int (length chunks) = 3
           \<and> concat chunks = js_str ''abcde'')"
proof -
  have h: "0 < chunk_size_or_default (Some 2)" by (simp add: chunk_size_or_default_def)
  have c: "\<lceil>rat_of_nat (length (js_str ''abcde'')) / rat_of_int (chunk_size_or_default (Some 2))\<rceil> = 3"
  proof -
    have "\<lceil>(5::rat) / 2\<rceil> = 3" by (rule ceiling_unique) simp_all
    then show ?thesis by (simp add: chunk_size_or_default_def js_str_def)
  qed
  from chunkText_partition[OF h, of "js_str ''abcde''"] c h show ?thesis by auto
qed

section \<open>The embedding pipeline\<close>

lemma chunkText_empty: "chunkText [] None = Some []"
  by (simp add: chunkText_def chunk_size_or_default_def chunk_loop.simps)

lemma chunkText_single:
  assumes "t \<noteq> []" "length t \<le> 2000"
  shows "chunkText t None = Some [t]"
proof -
  have s: "js_slice t 0 2000 = t"
    using assms by (simp add: js_slice_def Let_def min_def)
  have "chunk_loop t 2000 0 [] = chunk_loop t 2000 2000 [t]"
    using assms by (subst chunk_loop.simps) (simp add: s)
  also have "\<dots> = Some [t]"
    using assms by (subst chunk_loop.simps) simp
  finally show ?thesis by (simp add: chunkText_def chunk_size_or_default_def)
qed

lemma chunkText_returns: "\<exists>chunks. chunkText t a = Some chunks" if "0 < chunk_size_or_default a"
  using chunk_loop_spec[of "chunk_size_or_default a" 0 t "[]"] that by (auto simp: chunkText_def)

lemma map_throwing_Inr: "map_throwing (\<lambda>i. Inr (g i)) xs = Inr (map g xs)"
  by (induction xs) simp_all

lemma reduce_sum_arrays:
  "reduce_sum (map Arr vs) i acc = Inr (foldl js_add acc (map (\<lambda>v. js_index v i) vs))"
  by (induction vs arbitrary: acc) simp_all

lemma avgEmbedding_arrays:
  assumes "vs \<noteq> []"
  shows "avgEmbedding (map Arr vs) =
         Inr (map (\<lambda>i. js_div_length (foldl js_add (Num 0) (map (\<lambda>v. js_index v i) vs)) (length vs))
                  [0..<length (hd vs)])"
proof -
  obtain v0 rest where vs: "vs = v0 # rest" using assms by (cases vs) auto
  show ?thesis
    by (simp add: avgEmbedding_def vs reduce_sum_arrays map_throwing_Inr)
qed


lemma js_add_zero: "representable x \<Longrightarrow> js_add (Num 0) x = x"
  by (cases x) simp_all

lemma js_div_length_one: "representable x \<Longrightarrow> js_div_length x (Suc 0) = x"
  by (cases x) simp_all

section \<open>Rounding at concrete numbers\<close>

lemma floor_log2_window:
  assumes "0 < x"
  shows "2 powi floor_log2 x \<le> x \<and> x < 2 powi (floor_log2 x + 1)"
proof -
  obtain p q where pq: "quotient_of x = (p, q)" by (cases "quotient_of x")
  have q: "0 < q" using pq by (rule quotient_of_denom_pos)
  have x: "x = of_int p / of_int q" using pq by (rule quotient_of_div)
  have p: "0 < p" using assms q x by (simp add: zero_less_divide_iff)
  define bp where "bp = bitlen p"
  define bq where "bq = bitlen q"
  have bp1: "1 \<le> bp" using p by (auto simp: bp_def bitlen_alt_def)
  have bq1: "1 \<le> bq" using q by (auto simp: bq_def bitlen_alt_def)
  have "p < 2 ^ nat bp" using bitlen_bounds[OF p] by (simp add: bp_def)
  then have "rat_of_int p < of_int (2 ^ nat bp)" by (simp only: of_int_less_iff)
  then have pu: "rat_of_int p < 2 powi bp" using bp1 by (simp add: power_int_def)
  have "2 ^ nat (bq - 1) \<le> q" using bitlen_bounds[OF q] by (simp add: bq_def)
  then have "rat_of_int (2 ^ nat (bq - 1)) \<le> of_int q" by (simp only: of_int_le_iff)
  then have ql: "2 powi (bq - 1) \<le> rat_of_int q" using bq1 by (simp add: power_int_def)
  have "x < 2 powi bp / of_int q" unfolding x using pu q by (simp add: divide_strict_right_mono)
  also have "\<dots> \<le> 2 powi bp / 2 powi (bq - 1)"
    using ql q by (intro divide_left_mono) (auto intro!: mult_pos_pos)
  also have "\<dots> = 2 powi (bp - bq + 1)"
    by (simp add: power_int_diff power_int_add field_simps)
  finally have up: "x < 2 powi (bp - bq + 1)" .
  show ?thesis
  proof (cases "2 powi (bp - bq) \<le> x")
    case True
    then have "floor_log2 x = bp - bq" by (simp add: floor_log2_def pq bp_def bq_def)
    then show ?thesis using True up by simp
  next
    case False
    then have f: "floor_log2 x = bp - bq - 1" by (simp add: floor_log2_def pq bp_def bq_def)
    have "2 ^ nat (bp - 1) \<le> p" using bitlen_bounds[OF p] by (simp add: bp_def)
    then have "rat_of_int (2 ^ nat (bp - 1)) \<le> of_int p" by (simp only: of_int_le_iff)
    then have pl: "2 powi (bp - 1) \<le> rat_of_int p" using bp1 by (simp add: power_int_def)
    have "q < 2 ^ nat bq" using bitlen_bounds[OF q] by (simp add: bq_def)
    then have "rat_of_int q < of_int (2 ^ nat bq)" by (simp only: of_int_less_iff)
    then have qu: "rat_of_int q \<le> 2 powi bq" using bq1 by (simp add: power_int_def)
    have "2 powi (bp - bq - 1) = 2 powi (bp - 1) / (2 powi bq :: rat)"
      by (simp add: power_int_diff)
    also have "\<dots> \<le> of_int p / 2 powi bq" using pl by (simp add: divide_right_mono)
    also have "\<dots> \<le> of_int p / of_int q" using qu p q by (intro divide_left_mono) auto
    finally have "2 powi (bp - bq - 1) \<le> x" using x by simp
    then show ?thesis using False f by simp
  qed
qed

lemma two_powi_less_imp:
  assumes "(2::rat) powi a < 2 powi b"
  shows "a < b"
proof (rule ccontr)
  assume "\<not> a < b"
  then have "b \<le> a" by simp
  then have "(2::rat) powi b \<le> 2 powi a" by (intro power_int_increasing) auto
  with assms show False by linarith
qed

lemma floor_log2_eq:
  assumes "2 powi k \<le> x" "x < 2 powi (k + 1)"
  shows "floor_log2 x = k"
proof -
  have "0 < (2::rat) powi k" by simp
  then have pos: "0 < x" using assms(1) by linarith
  note w = floor_log2_window[OF pos]
  have "(2::rat) powi k < 2 powi (floor_log2 x + 1)" using assms(1) w by linarith
  then have a: "k < floor_log2 x + 1" by (rule two_powi_less_imp)
  have "(2::rat) powi floor_log2 x < 2 powi (k + 1)" using assms(2) w by linarith
  then have b: "floor_log2 x < k + 1" by (rule two_powi_less_imp)
  from a b show ?thesis by simp
qed

lemma round_binary_eval:
  assumes "2 powi k \<le> \<bar>x\<bar>" "\<bar>x\<bar> < 2 powi (k + 1)"
  shows "round_binary p emin emax x =
     (let e = max (k - (p - 1)) emin;
          y = of_int (round_half_even (x / 2 powi e)) * 2 powi e
      in if 2 powi emax \<le> y then PosInf
         else if y \<le> - (2 powi emax) then NegInf
         else Num y)"
proof -
  have "x \<noteq> 0"
  proof
    assume "x = 0"
    with assms(1) have "(2::rat) powi k \<le> 0" by simp
    moreover have "0 < (2::rat) powi k" by simp
    ultimately show False by linarith
  qed
  then show ?thesis
    by (simp add: round_binary_def floor_log2_eq[OF assms])
qed

lemma floor_rat_numeral [simp]:
  "\<lfloor>numeral a / numeral b :: rat\<rfloor> = numeral a div numeral b"
  using floor_divide_of_int_eq[of "numeral a" "numeral b", where ?'a = rat] by simp

lemma floor_rat_neg_numeral [simp]:
  "\<lfloor>- (numeral a / numeral b) :: rat\<rfloor> = - numeral a div numeral b"
  using floor_divide_of_int_eq[of "- numeral a" "numeral b", where ?'a = rat] by simp

lemma to_double_0: "to_double 0 = Num 0"
  by (simp add: to_double_def round_binary_def)

lemma to_double_1: "to_double 1 = Num 1"
  by (simp add: to_double_def round_binary_eval[where k=0] round_half_even_def Let_def)

lemma to_double_2: "to_double 2 = Num 2"
  by (simp add: to_double_def round_binary_eval[where k=1] round_half_even_def Let_def)

lemma to_double_4: "to_double 4 = Num 4"
  by (simp add: to_double_def round_binary_eval[where k=2] round_half_even_def Let_def)

lemma to_double_minus_1: "to_double (- 1) = Num (- 1)"
  by (simp add: to_double_def round_binary_eval[where k=0] round_half_even_def Let_def)

lemma to_float32_0: "to_float32 0 = Num 0"
  by (simp add: to_float32_def round_binary_def)

lemma to_float32_1: "to_float32 1 = Num 1"
  by (simp add: to_float32_def round_binary_eval[where k=0] round_half_even_def Let_def)

section \<open>Short and empty documents\<close>

text \<open>
  Claim C10. For a non-empty text of at most 2000 characters the document pipeline sends
  exactly one request, with the whole text, and returns the provider's vector unchanged:
  the same vector, from the same request, as the query path \<open>generateEmbedding\<close>.
\<close>


theorem generateEmbeddingsForDocument_single:
  assumes "t \<noteq> []" "length t \<le> 2000" "provider ev calls t = Reply (Arr v)"
    "\<forall>x\<in>set v. representable x"
  shows "generateEmbeddingsForDocument ev t calls = Some (Inr (Some v), calls @ [t])
       \<and> generateEmbedding ev t calls = (Inr (Arr v), calls @ [t])"
proof -
  have g: "generateEmbedding ev t calls = (Inr (Arr v), calls @ [t])"
    using assms(3) by (simp add: generateEmbedding_def)
  have avg: "avgEmbedding [Arr v] = Inr v"
  proof -
    have "map (\<lambda>i. js_div_length (js_add (Num 0) (js_index v i)) (Suc 0)) [0..<length v] = v"
      using assms(4) by (intro nth_equalityI) (simp_all add: js_index_def js_add_zero js_div_length_one)
    then show ?thesis
      using avgEmbedding_arrays[of "[v]"] by simp
  qed
  show ?thesis
    using g avg by (simp add: generateEmbeddingsForDocument_def chunkText_single[OF assms(1,2)])
qed

theorem generateEmbeddingsForDocument_single_witness:
  "js_str ''abc'' \<noteq> [] \<and> length (js_str ''abc'') \<le> 2000
   \<and> provider sample_env [] (js_str ''abc'') = Reply (Arr [Num 1, Num 0])
   \<and> representable (Num 1) \<and> representable (Num 0)
   \<and> generateEmbeddingsForDocument sample_env (js_str ''abc'') [] = Some (Inr (Some [Num 1, Num 0]), [js_str ''abc''])
   \<and> generateEmbedding sample_env (js_str ''abc'') [] = (Inr (Arr [Num 1, Num 0]), [js_str ''abc''])"
proof -
  have 1: "js_str ''abc'' \<noteq> []" by (simp add: js_str_def)
  have 2: "length (js_str ''abc'') \<le> 2000" by (simp add: js_str_def)
  have 3: "provider sample_env [] (js_str ''abc'') = Reply (Arr [Num 1, Num 0])"
    by (simp add: sample_env_def)
  have 4: "\<forall>x\<in>set [Num 1, Num 0]. representable x"
    by (simp add: to_double_0 to_double_1)
  from generateEmbeddingsForDocument_single[OF 1 2 3 4] 1 2 3 4 show ?thesis by simp
qed

lemma saveDocument_no_vector:
  assumes "extractText ev filePath = Inr content" "\<not> insert_document_fails ev"
    "generateEmbeddingsForDocument ev content (provider_calls w) = Some (r, calls)"
    "r = Inl e \<or> r = Inr None"
  shows "saveDocument ev fname filePath w =
           Some (Inr \<lparr>saved_id = doc_seq w + 1, saved_content = content\<rparr>,
                 w\<lparr>documents := documents w @
                      [\<lparr>row_id = doc_seq w + 1, filename = fname,
                        content_preview = js_substring content 0 500 @
                           (if length content > 500 then js_str ''...'' else js_str ''''),
                        upload_date = now ev\<rparr>],
                    doc_seq := doc_seq w + 1, provider_calls := calls\<rparr>)"
  using assms by (auto simp: saveDocument_def Let_def)

text \<open>
  Claim C8. On the empty text \<open>generateEmbeddingsForDocument\<close> returns \<^verbatim>\<open>null\<close> and the
  log of provider requests is unchanged; \<open>saveDocument\<close> of a file with no text still resolves
  with the new identifier, the document row is inserted, and neither a vector is stored nor a
  request made.
\<close>

theorem empty_text_no_embedding:
  "generateEmbeddingsForDocument ev [] calls = Some (Inr None, calls)
   \<and> (extractText ev filePath = Inr [] \<and> \<not> insert_document_fails ev \<longrightarrow>
        saveDocument ev fname filePath w =
          Some (Inr \<lparr>saved_id = doc_seq w + 1, saved_content = []\<rparr>,
                w\<lparr>documents := documents w @
                     [\<lparr>row_id = doc_seq w + 1, filename = fname, content_preview = [],
                       upload_date = now ev\<rparr>],
                   doc_seq := doc_seq w + 1\<rparr>))"
proof -
  have e: "generateEmbeddingsForDocument ev [] calls = Some (Inr None, calls)" for calls
    by (simp add: generateEmbeddingsForDocument_def chunkText_empty)
  show ?thesis
    using e saveDocument_no_vector[of ev filePath "[]" w "Inr None" "provider_calls w" undefined fname]
    by (auto simp: js_substring_def js_str_def)
qed

theorem empty_text_no_embedding_witness:
  "extractText (sample_env\<lparr>extractText := \<lambda>p. Inr []\<rparr>) (js_str ''e.txt'') = Inr []
   \<and> \<not> insert_document_fails (sample_env\<lparr>extractText := \<lambda>p. Inr []\<rparr>)
   \<and> saveDocument (sample_env\<lparr>extractText := \<lambda>p. Inr []\<rparr>) (js_str ''e.txt'') (js_str ''e.txt'') init_world =
         Some (Inr \<lparr>saved_id = 1, saved_content = []\<rparr>,
               \<lparr>documents = [\<lparr>row_id = 1, filename = js_str ''e.txt'', content_preview = [],
                               upload_date = 0\<rparr>],
                embeddings = [], doc_seq = 1, emb_seq = 0, provider_calls = []\<rparr>)"
  using empty_text_no_embedding[of "sample_env\<lparr>extractText := \<lambda>p. Inr []\<rparr>" "[]"
          "js_str ''e.txt''" "js_str ''e.txt''" init_world]
  by (simp add: sample_env_def init_world_def)

section \<open>Ingestion when the embedding fails\<close>

lemma generateEmbeddingsForDocument_returns:
  "\<exists>r calls'. generateEmbeddingsForDocument ev content calls = Some (r, calls')"
proof -
  obtain chunks where "chunkText content None = Some chunks"
    using chunkText_returns[of None content] by (auto simp: chunk_size_or_default_def)
  then show ?thesis
    by (cases "generateEmbeddingsForDocument ev content calls")
       (auto simp: generateEmbeddingsForDocument_def)
qed

lemma saveDocument_resolves:
  assumes "extractText ev filePath = Inr content" "\<not> insert_document_fails ev"
  shows "\<exists>w'. saveDocument ev fname filePath w =
                 Some (Inr \<lparr>saved_id = doc_seq w + 1, saved_content = content\<rparr>, w')
            \<and> documents w' = documents w @
                 [\<lparr>row_id = doc_seq w + 1, filename = fname,
                   content_preview = js_substring content 0 500 @
                      (if length content > 500 then js_str ''...'' else js_str ''''),
                   upload_date = now ev\<rparr>]
            \<and> doc_seq w' = doc_seq w + 1"
proof -
  obtain r calls' where g: "generateEmbeddingsForDocument ev content (provider_calls w) = Some (r, calls')"
    using generateEmbeddingsForDocument_returns by blast
  show ?thesis
  proof (cases r)
    case (Inl e)
    then show ?thesis using assms g by (simp add: saveDocument_def Let_def)
  next
    case (Inr b)
    then show ?thesis using assms g by (cases b) (simp_all add: saveDocument_def Let_def)
  qed
qed

lemma generateEmbeddingsForDocument_unreachable:
  assumes "t \<noteq> []" "length t \<le> 2000" "provider ev calls t = Unreachable"
  shows "generateEmbeddingsForDocument ev t calls = Some (Inl EmbeddingFailed, calls @ [t])"
  using assms(3)
  by (simp add: generateEmbeddingsForDocument_def chunkText_single[OF assms(1,2)] generateEmbedding_def)

lemma generateEmbeddingsForDocument_no_field:
  assumes "t \<noteq> []" "length t \<le> 2000" "provider ev calls t = Reply Undefined"
  shows "generateEmbeddingsForDocument ev t calls = Some (Inl TypeError, calls @ [t])"
  using assms(3)
  by (simp add: generateEmbeddingsForDocument_def chunkText_single[OF assms(1,2)] generateEmbedding_def
        avgEmbedding_def)

lemma embed_chunks_unreachable:
  "Unreachable \<in> set (provider_replies ev chunks calls) \<Longrightarrow>
   \<exists>calls'. embed_chunks ev chunks embs calls = (Inl EmbeddingFailed, calls')"
proof (induction chunks arbitrary: embs calls)
  case Nil
  then show ?case by simp
next
  case (Cons chunk chunks)
  show ?case
  proof (cases "provider ev calls chunk")
    case Unreachable
    then show ?thesis by (simp add: generateEmbedding_def)
  next
    case (Reply v)
    with Cons.prems have "Unreachable \<in> set (provider_replies ev chunks (calls @ [chunk]))"
      by simp
    from Cons.IH[OF this, of "embs @ [v]"] Reply show ?thesis
      by (simp add: generateEmbedding_def)
  qed
qed

text \<open>
  Claim C6. When the text is extracted and the document row inserted but the embedding of
  the text fails, \<open>saveDocument\<close> still resolves with the identifier of the new document, the
  document is in the catalog, and the embeddings table is unchanged.
\<close>

theorem embedding_failure_keeps_document:
  assumes "extractText ev filePath = Inr content" "\<not> insert_document_fails ev"
    "generateEmbeddingsForDocument ev content (provider_calls w) = Some (Inl e, calls)"
  shows "\<exists>w'. saveDocument ev fname filePath w =
                 Some (Inr \<lparr>saved_id = doc_seq w + 1, saved_content = content\<rparr>, w')
            \<and> (\<exists>d\<in>set (documents w'). row_id d = doc_seq w + 1 \<and> filename d = fname)
            \<and> set (documents w) \<subseteq> set (documents w')
            \<and> embeddings w' = embeddings w"
  using saveDocument_no_vector[OF assms, where e = e and fname = fname]
  by auto

theorem embedding_failure_keeps_document_witness:
  "extractText (sample_env\<lparr>provider := \<lambda>calls text. Unreachable\<rparr>) (js_str ''a.txt'') = Inr (js_str ''abc'')
   \<and> \<not> insert_document_fails (sample_env\<lparr>provider := \<lambda>calls text. Unreachable\<rparr>)
   \<and> generateEmbeddingsForDocument (sample_env\<lparr>provider := \<lambda>calls text. Unreachable\<rparr>) (js_str ''abc'')
         (provider_calls init_world) = Some (Inl EmbeddingFailed, [js_str ''abc''])
   \<and> (\<exists>w'. saveDocument (sample_env\<lparr>provider := \<lambda>calls text. Unreachable\<rparr>) (js_str ''a.txt'')
                (js_str ''a.txt'') init_world =
                 Some (Inr \<lparr>saved_id = 1, saved_content = js_str ''abc''\<rparr>, w')
            \<and> (\<exists>d\<in>set (documents w'). row_id d = 1 \<and> filename d = js_str ''a.txt'')
            \<and> embeddings w' = [])"
proof -
  let ?ev = "sample_env\<lparr>provider := \<lambda>calls text. Unreachable\<rparr>"
  have 1: "extractText ?ev (js_str ''a.txt'') = Inr (js_str ''abc'')" by (simp add: sample_env_def)
  have 2: "\<not> insert_document_fails ?ev" by (simp add: sample_env_def)
  have 3: "generateEmbeddingsForDocument ?ev (js_str ''abc'') (provider_calls init_world)
             = Some (Inl EmbeddingFailed, [js_str ''abc''])"
    using generateEmbeddingsForDocument_unreachable[of "js_str ''abc''" ?ev "[]"]
    by (simp add: js_str_def init_world_def)
  from embedding_failure_keeps_document[OF 1 2 3, of "js_str ''a.txt''"] 1 2 3
  show ?thesis by (simp add: init_world_def)
qed

section \<open>The preview\<close>

lemma js_substring_take: "js_substring s 0 n = take n s"
  by (simp add: js_substring_def Let_def min_def)

text \<open>
  Claim C7, as amended. After a successful ingestion of the extracted text \<open>t\<close> the preview
  stored in the catalog is the first 500 characters of \<open>t\<close>, followed by the marker \<open>...\<close>
  exactly when \<open>t\<close> is longer than 500 characters. \<open>saveDocument\<close> resolves with the
  identifier of the new document and the whole text; the response of \<^verbatim>\<open>/api/process\<close>
  carries the identifier and a preview of its own, which begins with the first 200 characters
  of \<open>t\<close> and, when \<open>t\<close> is longer than 200 characters, is these followed by the marker.
\<close>

theorem process_preview:
  assumes "fname \<noteq> []" "existsSync ev (path_join ev (js_str ''./uploads'') fname)"
    "extractText ev (path_join ev (js_str ''./uploads'') fname) = Inr t"
    "\<not> insert_document_fails ev"
  shows "\<exists>reply w'. process_route ev (Some fname) w = Some (Ok reply, w')
           \<and> saveDocument ev fname (path_join ev (js_str ''./uploads'') fname) w =
                 Some (Inr \<lparr>saved_id = reply_documentId reply, saved_content = t\<rparr>, w')
           \<and> reply_documentId reply = doc_seq w + 1
           \<and> (\<exists>rest. reply_preview reply = take 200 t @ rest)
           \<and> (200 < length t \<longrightarrow> reply_preview reply = take 200 t @ js_str ''...'')
           \<and> (\<exists>d\<in>set (documents w'). row_id d = reply_documentId reply
                  \<and> content_preview d = take 500 t @ (if 500 < length t then js_str ''...'' else []))"
proof -
  let ?p = "path_join ev (js_str ''./uploads'') fname"
  from saveDocument_resolves[OF assms(3,4), of fname w]
  obtain w' where w': "saveDocument ev fname ?p w =
        Some (Inr \<lparr>saved_id = doc_seq w + 1, saved_content = t\<rparr>, w')"
    "documents w' = documents w @
                 [\<lparr>row_id = doc_seq w + 1, filename = fname,
                   content_preview = js_substring t 0 500 @
                      (if length t > 500 then js_str ''...'' else js_str ''''),
                   upload_date = now ev\<rparr>]"
    by blast
  have "process_route ev (Some fname) w =
          Some (Ok \<lparr>reply_message = js_str ''Document processed and indexed successfully'',
                    reply_documentId = doc_seq w + 1,
                    reply_preview = take 200 t @ js_str ''...''\<rparr>, w')"
    using assms(1,2) w'(1) by (simp add: process_route_def Let_def js_substring_take)
  moreover have "\<exists>d\<in>set (documents w'). row_id d = doc_seq w + 1
                  \<and> content_preview d = take 500 t @ (if 500 < length t then js_str ''...'' else [])"
    using w'(2) by (simp add: js_substring_take js_str_def)
  ultimately show ?thesis using w'(1) by auto
qed

theorem process_preview_witness:
  "js_str ''a.txt'' \<noteq> []
   \<and> existsSync long_text_env (path_join long_text_env (js_str ''./uploads'') (js_str ''a.txt''))
   \<and> extractText long_text_env (path_join long_text_env (js_str ''./uploads'') (js_str ''a.txt''))
        = Inr (replicate 600 97)
   \<and> \<not> insert_document_fails long_text_env
   \<and> (200::nat) < length (replicate 600 (97 :: 16 word))
   \<and> (\<exists>reply w'. process_route long_text_env (Some (js_str ''a.txt'')) init_world = Some (Ok reply, w')
           \<and> reply_documentId reply = 1
           \<and> reply_preview reply = replicate 200 97 @ js_str ''...''
           \<and> (\<exists>d\<in>set (documents w'). row_id d = 1
                  \<and> content_preview d = replicate 500 97 @ js_str ''...''))"
proof -
  have 1: "js_str ''a.txt'' \<noteq> []" by (simp add: js_str_def)
  have 2: "existsSync long_text_env (path_join long_text_env (js_str ''./uploads'') (js_str ''a.txt''))"
    by (simp add: long_text_env_def sample_env_def)
  have 3: "extractText long_text_env (path_join long_text_env (js_str ''./uploads'') (js_str ''a.txt''))
        = Inr (replicate 600 97)"
    by (simp add: long_text_env_def sample_env_def)
  have 4: "\<not> insert_document_fails long_text_env"
    by (simp add: long_text_env_def sample_env_def)
  from process_preview[OF 1 2 3 4, of init_world] 1 2 3 4
  show ?thesis by (auto simp: init_world_def)
qed

text \<open>
  The claim as stated fails: for a text of 600 characters the response's preview is the first
  200 characters and the marker, not the first 500 characters and the marker.
\<close>

theorem response_preview_counterexample:
  "map_option fst (process_route long_text_env (Some (js_str ''a.txt'')) init_world) =
     Some (Ok \<lparr>reply_message = js_str ''Document processed and indexed successfully'',
               reply_documentId = 1,
               reply_preview = replicate 200 97 @ js_str ''...''\<rparr>)
   \<and> replicate 200 97 @ js_str ''...'' \<noteq>
       js_substring (replicate 600 97) 0 500 @
         (if 500 < length (replicate 600 (97 :: 16 word)) then js_str ''...'' else js_str '''')"
proof -
  let ?p = "path_join long_text_env (js_str ''./uploads'') (js_str ''a.txt'')"
  have 3: "extractText long_text_env ?p = Inr (replicate 600 97)"
    by (simp add: long_text_env_def sample_env_def)
  have 4: "\<not> insert_document_fails long_text_env"
    by (simp add: long_text_env_def sample_env_def)
  from saveDocument_resolves[OF 3 4, of "js_str ''a.txt''" init_world]
  obtain w' where "saveDocument long_text_env (js_str ''a.txt'') ?p init_world =
        Some (Inr \<lparr>saved_id = doc_seq init_world + 1, saved_content = replicate 600 97\<rparr>, w')"
    by blast
  then have run: "process_route long_text_env (Some (js_str ''a.txt'')) init_world =
     Some (Ok \<lparr>reply_message = js_str ''Document processed and indexed successfully'',
               reply_documentId = 1,
               reply_preview = replicate 200 97 @ js_str ''...''\<rparr>, w')"
    by (simp add: process_route_def Let_def js_substring_take init_world_def)
       (simp add: long_text_env_def sample_env_def js_str_def)
  have len: "length (replicate 200 (97 :: 16 word) @ js_str ''...'') \<noteq>
       length (js_substring (replicate 600 (97 :: 16 word)) 0 500 @
         (if 500 < length (replicate 600 (97 :: 16 word)) then js_str ''...'' else js_str ''''))"
    by (simp add: js_substring_take js_str_def)
  have ne: "replicate 200 (97 :: 16 word) @ js_str ''...'' \<noteq>
       js_substring (replicate 600 (97 :: 16 word)) 0 500 @
         (if 500 < length (replicate 600 (97 :: 16 word)) then js_str ''...'' else js_str '''')"
    using len by metis
  show ?thesis
    unfolding run by (intro conjI ne) simp
qed

section \<open>Vectors of different lengths\<close>

lemma chunkText_two:
  assumes "2000 < length t" "length t \<le> 4000"
  shows "chunkText t None = Some [take 2000 t, drop 2000 t]"
proof -
  have s1: "js_slice t 0 2000 = take 2000 t"
    using assms by (simp add: js_slice_def Let_def min_def)
  have "js_slice t 2000 4000 = take 2000 (drop 2000 t)"
    using js_slice_chunk[of 2000 2000 t] by simp
  then have s2: "js_slice t 2000 4000 = drop 2000 t"
    using assms by simp
  have ne: "t \<noteq> []" using assms by auto
  have "chunk_loop t 2000 0 [] = chunk_loop t 2000 2000 [take 2000 t]"
    using ne by (subst chunk_loop.simps) (simp add: s1)
  also have "\<dots> = chunk_loop t 2000 4000 [take 2000 t, drop 2000 t]"
    using assms by (subst chunk_loop.simps) (simp add: s2)
  also have "\<dots> = Some [take 2000 t, drop 2000 t]"
    using assms by (subst chunk_loop.simps) simp
  finally show ?thesis by (simp add: chunkText_def chunk_size_or_default_def)
qed

lemma embed_chunks_replies:
  "provider_replies ev chunks calls = map Reply vals \<Longrightarrow>
   embed_chunks ev chunks embs calls = (Inr (embs @ vals), calls @ chunks)"
proof (induction chunks arbitrary: embs calls vals)
  case Nil
  then show ?case by simp
next
  case (Cons chunk chunks)
  then obtain v rest where vals: "vals = v # rest" "provider ev calls chunk = Reply v"
    "provider_replies ev chunks (calls @ [chunk]) = map Reply rest"
    by (cases vals) auto
  from Cons.IH[OF vals(3), of "embs @ [v]"] vals(1,2) show ?case
    by (simp add: generateEmbedding_def)
qed

lemma js_add_NaN_right [simp]: "js_add x NaN = NaN"
  by (cases x) simp_all

lemma foldl_js_add_NaN [simp]: "foldl js_add NaN xs = NaN"
  by (induction xs) simp_all

lemma foldl_js_add_has_NaN: "NaN \<in> set xs \<Longrightarrow> foldl js_add acc xs = NaN"
  by (induction xs arbitrary: acc) auto

lemma chunkText_nonempty:
  assumes "chunkText content None = Some chunks" "content \<noteq> []"
  shows "chunks \<noteq> []"
proof -
  from chunk_loop_spec[of 2000 0 content "[]"] assms(1)
  have "concat chunks = content" by (auto simp: chunkText_def chunk_size_or_default_def)
  with assms(2) show ?thesis by auto
qed

lemma generateEmbeddingsForDocument_arrays:
  assumes "chunkText content None = Some chunks" "content \<noteq> []"
    "provider_replies ev chunks calls = map (\<lambda>v. Reply (Arr v)) vs"
  shows "vs \<noteq> []"
    and "generateEmbeddingsForDocument ev content calls =
           Some (Inr (Some (map (\<lambda>i. js_div_length
                                      (foldl js_add (Num 0) (map (\<lambda>v. js_index v i) vs)) (length vs))
                               [0..<length (hd vs)])),
                 calls @ chunks)"
proof -
  have "length vs = length chunks"
  proof -
    have "length (provider_replies ev chunks calls) = length chunks" for calls
      by (induction chunks arbitrary: calls) simp_all
    then show ?thesis using assms(3) by (metis length_map)
  qed
  with chunkText_nonempty[OF assms(1,2)] show ne: "vs \<noteq> []" by auto
  have "provider_replies ev chunks calls = map Reply (map Arr vs)"
    using assms(3) by simp
  from embed_chunks_replies[OF this, of "[]"]
  have e: "embed_chunks ev chunks [] calls = (Inr (map Arr vs), calls @ chunks)" by simp
  show "generateEmbeddingsForDocument ev content calls =
           Some (Inr (Some (map (\<lambda>i. js_div_length
                                      (foldl js_add (Num 0) (map (\<lambda>v. js_index v i) vs)) (length vs))
                               [0..<length (hd vs)])),
                 calls @ chunks)"
    using ne by (simp add: generateEmbeddingsForDocument_def assms(1) e avgEmbedding_arrays[OF ne])
qed

text \<open>
  Claim C5, as amended. When the provider answers the chunks of a document with vectors of
  different lengths, \<open>generateEmbeddingsForDocument\<close> does not fail: it returns a combined
  vector with the length of the first chunk's vector, computed position by position from the
  sums of the vectors; a position that some shorter vector lacks is \<open>NaN\<close>, and the entries of
  a longer vector beyond the length of the first one are not read.
\<close>

theorem mismatched_lengths_are_averaged:
  assumes "chunkText content None = Some chunks" "content \<noteq> []"
    "provider_replies ev chunks calls = map (\<lambda>v. Reply (Arr v)) vs"
  shows "\<exists>avg. generateEmbeddingsForDocument ev content calls = Some (Inr (Some avg), calls @ chunks)
           \<and> length avg = length (hd vs)
           \<and> (\<forall>i<length avg. avg ! i =
                  js_div_length (foldl js_add (Num 0) (map (\<lambda>v. js_index v i) vs)) (length vs))
           \<and> (\<forall>i<length avg. (\<exists>v\<in>set vs. length v \<le> i) \<longrightarrow> avg ! i = NaN)"
proof -
  let ?avg = "map (\<lambda>i. js_div_length (foldl js_add (Num 0) (map (\<lambda>v. js_index v i) vs)) (length vs))
                  [0..<length (hd vs)]"
  have run: "generateEmbeddingsForDocument ev content calls = Some (Inr (Some ?avg), calls @ chunks)"
    by (rule generateEmbeddingsForDocument_arrays(2)[OF assms])
  have nan: "?avg ! i = NaN" if "i < length ?avg" "\<exists>v\<in>set vs. length v \<le> i" for i
  proof -
    from that(2) have "NaN \<in> set (map (\<lambda>v. js_index v i) vs)"
      by (auto simp: js_index_def image_iff)
    then have "foldl js_add (Num 0) (map (\<lambda>v. js_index v i) vs) = NaN"
      by (rule foldl_js_add_has_NaN)
    then show ?thesis using that(1) by simp
  qed
  show ?thesis
    by (intro exI[of _ ?avg] conjI run allI impI nan) simp_all
qed

lemma mismatch_chunks:
  "chunkText (replicate 2001 97) None = Some [replicate 2000 97, [97]]"
  using chunkText_two[of "replicate 2001 97"] by simp

lemma mismatch_replies:
  "provider_replies mismatch_env [replicate 2000 97, [97]] [] =
     map (\<lambda>v. Reply (Arr v)) [[Num 1, Num 2], [Num 3]]"
  by (simp add: mismatch_env_def sample_env_def)

text \<open>
  The claim as stated fails: a document of two chunks whose vectors have lengths 2 and 1 gets
  the combined vector \<open>(2, NaN)\<close>, and no error.
\<close>

theorem mismatched_lengths_counterexample:
  "generateEmbeddingsForDocument mismatch_env (replicate 2001 97) [] =
     Some (Inr (Some [Num 2, NaN]), [replicate 2000 97, [97]])"
proof -
  have e: "embed_chunks mismatch_env [replicate 2000 97, [97]] [] [] =
             (Inr (map Arr [[Num 1, Num 2], [Num 3]]), [replicate 2000 97, [97]])"
    using embed_chunks_replies[of mismatch_env "[replicate 2000 97, [97]]" "[]"
            "map Arr [[Num 1, Num 2], [Num 3]]" "[]"] mismatch_replies
    by simp
  have u: "[0..<2] = [0, Suc 0]" by (simp add: upt_rec)
  have a: "avgEmbedding (map Arr [[Num 1, Num 2], [Num 3]]) = Inr [Num 2, NaN]"
    by (subst avgEmbedding_arrays)
       (simp_all add: u js_index_def to_double_1 to_double_2 to_double_4)
  show ?thesis
    using e a by (simp add: generateEmbeddingsForDocument_def mismatch_chunks)
qed

theorem mismatched_lengths_are_averaged_witness:
  "chunkText (replicate 2001 97) None = Some [replicate 2000 97, [97]]
   \<and> replicate 2001 (97 :: 16 word) \<noteq> []
   \<and> provider_replies mismatch_env [replicate 2000 97, [97]] [] =
        map (\<lambda>v. Reply (Arr v)) [[Num 1, Num 2], [Num 3]]
   \<and> (\<exists>v\<in>set [[Num 1, Num 2], [Num 3]]. length v \<le> (1::nat))
   \<and> (\<exists>avg. generateEmbeddingsForDocument mismatch_env (replicate 2001 97) [] =
               Some (Inr (Some avg), [replicate 2000 97, [97]])
           \<and> length avg = 2 \<and> avg ! 1 = NaN)"
proof -
  have 2: "replicate 2001 (97 :: 16 word) \<noteq> []" by simp
  from mismatched_lengths_are_averaged[OF mismatch_chunks 2 mismatch_replies]
  obtain avg where avg: "generateEmbeddingsForDocument mismatch_env (replicate 2001 97) [] =
               Some (Inr (Some avg), [] @ [replicate 2000 97, [97]])"
     "length avg = length (hd [[Num 1, Num 2], [Num (3::rat)]])"
     "\<forall>i<length avg. (\<exists>v\<in>set [[Num 1, Num 2], [Num 3]]. length v \<le> i) \<longrightarrow> avg ! i = NaN"
    by blast
  from avg(2) have l: "length avg = 2" by simp
  with avg(3) have "avg ! 1 = NaN" by simp
  with avg(1) l mismatch_chunks 2 mismatch_replies show ?thesis by simp
qed

section \<open>Search\<close>

lemma ranked_rows_calls [simp]:
  "ranked_rows ev (w\<lparr>provider_calls := c\<rparr>) q = ranked_rows ev w q"
  by (simp add: ranked_rows_def joined_def)

lemma those_map_Some:
  "those (map f xs) = Some ys \<Longrightarrow> length ys = length xs \<and> (\<forall>i<length xs. f (xs ! i) = Some (ys ! i))"
proof (induction xs arbitrary: ys)
  case Nil
  then show ?case by simp
next
  case (Cons x xs)
  then obtain y ys' where y: "f x = Some y" "those (map f xs) = Some ys'" "ys = y # ys'"
    by (auto split: option.splits)
  from Cons.IH[OF y(2)] y(1,3) show ?case
    by (auto simp: nth_Cons split: nat.splits)
qed

lemma ranked_rows_docs:
  assumes "ranked_rows ev w q = Some ranked"
  shows "sorted (map knn_distance ranked)
       \<and> mset (map knn_doc ranked) = mset (map fst (joined w))
       \<and> (\<forall>row\<in>set ranked. \<exists>(d, e)\<in>set (joined w).
              knn_doc row = d \<and> vec_distance_cosine ev (vector e) q = Some (knn_distance row))"
proof -
  let ?f = "\<lambda>(d, e). map_option (\<lambda>dist. \<lparr>knn_doc = d, knn_distance = dist\<rparr>)
                                      (vec_distance_cosine ev (vector e) q)"
  from assms obtain rows where rows: "those (map ?f (joined w)) = Some rows"
    "ranked = sort_key knn_distance rows"
    by (auto simp: ranked_rows_def split: if_splits)
  note t = those_map_Some[OF rows(1)]
  have each: "\<forall>i<length rows. knn_doc (rows ! i) = fst (joined w ! i)
        \<and> vec_distance_cosine ev (vector (snd (joined w ! i))) q = Some (knn_distance (rows ! i))"
  proof (intro allI impI)
    fix i assume i: "i < length rows"
    with t have f: "?f (joined w ! i) = Some (rows ! i)" by simp
    obtain a b where ab: "joined w ! i = (a, b)" by (cases "joined w ! i")
    with f obtain z where z: "vec_distance_cosine ev (vector b) q = Some z"
      "rows ! i = \<lparr>knn_doc = a, knn_distance = z\<rparr>"
      by auto
    show "knn_doc (rows ! i) = fst (joined w ! i)
        \<and> vec_distance_cosine ev (vector (snd (joined w ! i))) q = Some (knn_distance (rows ! i))"
      by (simp add: ab z)
  qed
  have docs: "map knn_doc rows = map fst (joined w)"
    using t each by (intro nth_equalityI) simp_all
  have 1: "sorted (map knn_distance ranked)"
    unfolding rows(2) by (rule sorted_sort_key)
  have "mset ranked = mset rows" unfolding rows(2) by simp
  then have "mset (map knn_doc ranked) = mset (map knn_doc rows)"
    by (metis mset_map)
  then have 2: "mset (map knn_doc ranked) = mset (map fst (joined w))"
    using docs by simp
  have 3: "\<forall>row\<in>set ranked. \<exists>(d, e)\<in>set (joined w).
              knn_doc row = d \<and> vec_distance_cosine ev (vector e) q = Some (knn_distance row)"
  proof
    fix row assume "row \<in> set ranked"
    then have "row \<in> set rows" using rows(2) by simp
    then obtain i where i: "i < length rows" "rows ! i = row" by (auto simp: in_set_conv_nth)
    obtain a b where ab: "joined w ! i = (a, b)" by (cases "joined w ! i")
    from i t have "joined w ! i \<in> set (joined w)" by simp
    then have mem: "(a, b) \<in> set (joined w)" using ab by simp
    from each i ab have "knn_doc row = a"
      "vec_distance_cosine ev (vector b) q = Some (knn_distance row)" by auto
    then show "\<exists>(d, e)\<in>set (joined w).
              knn_doc row = d \<and> vec_distance_cosine ev (vector e) q = Some (knn_distance row)"
      by (intro bexI[OF _ mem]) simp
  qed
  from 1 2 3 show ?thesis by simp
qed

lemma searchDocuments_Reply:
  assumes "provider ev (provider_calls w) query = Reply qe"
    "ranked_rows ev w (Float32Array qe) = Some ranked"
  shows "searchDocuments ev query (Some limit) (Some offset) w =
           (Inr (map to_result (sql_limit_offset limit offset ranked)),
            w\<lparr>provider_calls := provider_calls w @ [query]\<rparr>)"
  using assms by (simp add: searchDocuments_def generateEmbedding_def Let_def)

lemma ranked_rows_ties:
  assumes "ranked_rows ev w q = Some ranked"
  shows "map knn_doc (filter (\<lambda>r. knn_distance r = k) ranked) =
         map fst (filter (\<lambda>(d, e). vec_distance_cosine ev (vector e) q = Some k) (joined w))"
proof -
  let ?f = "\<lambda>(d, e). map_option (\<lambda>dist. \<lparr>knn_doc = d, knn_distance = dist\<rparr>)
                                      (vec_distance_cosine ev (vector e) q)"
  let ?h = "\<lambda>x. the (?f x)"
  let ?Q = "\<lambda>(d, e). vec_distance_cosine ev (vector e) q = Some k"
  from assms obtain rows where rows: "those (map ?f (joined w)) = Some rows"
    "ranked = sort_key knn_distance rows"
    by (auto simp: ranked_rows_def split: if_splits)
  note t = those_map_Some[OF rows(1)]
  have rows_eq: "rows = map ?h (joined w)"
    using t by (intro nth_equalityI) simp_all
  have row: "knn_doc (?h x) = fst x \<and> (knn_distance (?h x) = k \<longleftrightarrow> ?Q x)"
    if "x \<in> set (joined w)" for x
  proof -
    from that obtain i where i: "i < length (joined w)" "joined w ! i = x"
      by (auto simp: in_set_conv_nth)
    with t have f: "?f x = Some (rows ! i)" by auto
    obtain d e where x: "x = (d, e)" by (cases x)
    with f obtain z where z: "vec_distance_cosine ev (vector e) q = Some z"
      "rows ! i = \<lparr>knn_doc = d, knn_distance = z\<rparr>"
      by auto
    show ?thesis using f by (simp add: x z)
  qed
  have "filter (\<lambda>r. knn_distance r = k) ranked = filter (\<lambda>r. knn_distance r = k) rows"
    unfolding rows(2) by (rule sort_key_stable)
  also have "\<dots> = map ?h (filter (\<lambda>x. knn_distance (?h x) = k) (joined w))"
    unfolding rows_eq by (simp add: filter_map comp_def)
  also have "filter (\<lambda>x. knn_distance (?h x) = k) (joined w) = filter ?Q (joined w)"
    using row by (intro filter_cong) auto
  finally have "map knn_doc (filter (\<lambda>r. knn_distance r = k) ranked) =
                map knn_doc (map ?h (filter ?Q (joined w)))"
    by simp
  also have "\<dots> = map fst (filter ?Q (joined w))"
    using row by (simp add: comp_def cong: map_cong)
  finally show ?thesis .
qed

lemma sorted_sql_real:
  fixes ds :: "sql_real list"
  assumes "sorted ds"
  shows "(\<forall>i j. i < j \<and> j < length ds \<and> ds ! j = None \<longrightarrow> ds ! i = None)
       \<and> (\<forall>i j a b. i < j \<and> j < length ds \<and> ds ! i = Some a \<and> ds ! j = Some b \<longrightarrow> a \<le> b)"
proof (intro conjI allI impI)
  fix i j assume h: "i < j \<and> j < length ds \<and> ds ! j = None"
  then have "ds ! i \<le> ds ! j" using sorted_nth_mono[OF assms, of i j] by simp
  with h have "ds ! i \<le> None" by simp
  then show "ds ! i = None" by (rule less_eq_option_None_is_None)
next
  fix i j a b assume h: "i < j \<and> j < length ds \<and> ds ! i = Some a \<and> ds ! j = Some b"
  then have "ds ! i \<le> ds ! j" using sorted_nth_mono[OF assms, of i j] by simp
  with h show "a \<le> b" by simp
qed

text \<open>
  Claim C3, as amended. For positive integers \<open>page\<close> and \<open>limit\<close> (1 and 10 when absent from
  the request) and a query that the provider embeds, the search route answers with the rows
  of the full ranked set from position \<open>(page - 1) * limit\<close> on, at most \<open>limit\<close> of them and
  in that order; page 2 with limit 10 gives the rows at positions 10 to 19 (ranks 11 to 20).
  The full ranked set holds every joined document: first the rows for which the vector store
  reports no distance (NULL), then the other rows in ascending order of their cosine distance,
  rows of equal distance in the order of the embeddings table.
\<close>

theorem search_pagination:
  assumes "body_query body = Some query" "query \<noteq> []"
    "limit = (case body_limit body of None \<Rightarrow> 10 | Some l \<Rightarrow> l)"
    "page = (case body_page body of None \<Rightarrow> 1 | Some p \<Rightarrow> p)"
    "0 < page" "0 < limit"
    "provider ev (provider_calls w) query = Reply qe"
    "ranked_rows ev w (Float32Array qe) = Some ranked"
  shows "search_route ev body w =
           (Ok \<lparr>reply_results =
                   map to_result (take (nat limit) (drop (nat ((page - 1) * limit)) ranked)),
                 reply_page = page, reply_limit = limit\<rparr>,
            w\<lparr>provider_calls := provider_calls w @ [query]\<rparr>)
       \<and> (\<forall>k < length (take (nat limit) (drop (nat ((page - 1) * limit)) ranked)).
             take (nat limit) (drop (nat ((page - 1) * limit)) ranked) ! k
               = ranked ! (nat ((page - 1) * limit) + k))
       \<and> (page = 2 \<and> limit = 10 \<longrightarrow>
             take (nat limit) (drop (nat ((page - 1) * limit)) ranked) = take 10 (drop 10 ranked))
       \<and> mset (map knn_doc ranked) = mset (map fst (joined w))
       \<and> (\<forall>i j. i < j \<and> j < length ranked \<and> knn_distance (ranked ! j) = None \<longrightarrow>
             knn_distance (ranked ! i) = None)
       \<and> (\<forall>i j a b. i < j \<and> j < length ranked \<and> knn_distance (ranked ! i) = Some a
               \<and> knn_distance (ranked ! j) = Some b \<longrightarrow> a \<le> b)
       \<and> (\<forall>k. map knn_doc (filter (\<lambda>r. knn_distance r = k) ranked) =
               map fst (filter (\<lambda>(d, e). vec_distance_cosine ev (vector e) (Float32Array qe) = Some k)
                         (joined w)))"
proof -
  let ?off = "(page - 1) * limit"
  have run: "search_route ev body w =
           (Ok \<lparr>reply_results = map to_result (take (nat limit) (drop (nat ?off) ranked)),
                 reply_page = page, reply_limit = limit\<rparr>,
            w\<lparr>provider_calls := provider_calls w @ [query]\<rparr>)"
    using assms(1,2,6) searchDocuments_Reply[OF assms(7,8), of limit ?off]
    by (simp add: search_route_def Let_def sql_limit_offset_def flip: assms(3,4))
  note r = ranked_rows_docs[OF assms(8)]
  have n: "\<forall>k < length (take (nat limit) (drop (nat ?off) ranked)).
             take (nat limit) (drop (nat ?off) ranked) ! k = ranked ! (nat ?off + k)"
  proof (intro allI impI)
    fix k assume "k < length (take (nat limit) (drop (nat ?off) ranked))"
    then have k: "k < nat limit" "k < length ranked - nat ?off" by simp_all
    then have "nat ?off \<le> length ranked" by linarith
    then have "drop (nat ?off) ranked ! k = ranked ! (nat ?off + k)" by (rule nth_drop)
    with k show "take (nat limit) (drop (nat ?off) ranked) ! k = ranked ! (nat ?off + k)"
      by simp
  qed
  have p: "page = 2 \<and> limit = 10 \<longrightarrow>
             take (nat limit) (drop (nat ?off) ranked) = take 10 (drop 10 ranked)"
    by simp
  have m: "mset (map knn_doc ranked) = mset (map fst (joined w))"
    using r by simp
  from r have "sorted (map knn_distance ranked)" by simp
  note o = sorted_sql_real[OF this]
  have o1: "\<forall>i j. i < j \<and> j < length ranked \<and> knn_distance (ranked ! j) = None \<longrightarrow>
             knn_distance (ranked ! i) = None"
  proof (intro allI impI)
    fix i j assume h: "i < j \<and> j < length ranked \<and> knn_distance (ranked ! j) = None"
    then have "i < j \<and> j < length (map knn_distance ranked) \<and> map knn_distance ranked ! j = None"
      by simp
    with o have "map knn_distance ranked ! i = None" by blast
    with h show "knn_distance (ranked ! i) = None" by simp
  qed
  have o2: "\<forall>i j a b. i < j \<and> j < length ranked \<and> knn_distance (ranked ! i) = Some a
               \<and> knn_distance (ranked ! j) = Some b \<longrightarrow> a \<le> b"
  proof (intro allI impI)
    fix i j a b assume h: "i < j \<and> j < length ranked \<and> knn_distance (ranked ! i) = Some a
               \<and> knn_distance (ranked ! j) = Some b"
    then have "i < j \<and> j < length (map knn_distance ranked) \<and> map knn_distance ranked ! i = Some a
               \<and> map knn_distance ranked ! j = Some b"
      by simp
    with o show "a \<le> b" by blast
  qed
  have t: "\<forall>k. map knn_doc (filter (\<lambda>r. knn_distance r = k) ranked) =
               map fst (filter (\<lambda>(d, e). vec_distance_cosine ev (vector e) (Float32Array qe) = Some k)
                         (joined w))"
    using ranked_rows_ties[OF assms(8)] by simp
  show ?thesis
    by (intro conjI run n p m o1 o2 t)
qed

lemma two_docs_ranked:
  "ranked_rows ranking_env two_docs_world [Num 1, Num 0] =
     Some [\<lparr>knn_doc = \<lparr>row_id = 2, filename = js_str ''b.txt'', content_preview = js_str ''abc'',
                         upload_date = 1\<rparr>, knn_distance = Some 0\<rparr>,
           \<lparr>knn_doc = \<lparr>row_id = 1, filename = js_str ''a.txt'', content_preview = js_str ''abc'',
                         upload_date = 0\<rparr>, knn_distance = Some 1\<rparr>]"
  by (simp add: ranked_rows_def joined_def two_docs_world_def ranking_env_def sample_env_def)

theorem search_pagination_witness:
  "body_query \<lparr>body_query = Some (js_str ''q''), body_limit = Some 1, body_page = Some 2\<rparr>
      = Some (js_str ''q'')
   \<and> js_str ''q'' \<noteq> [] \<and> (0::int) < 2 \<and> (0::int) < 1
   \<and> provider ranking_env (provider_calls two_docs_world) (js_str ''q'') = Reply (Arr [Num 1, Num 0])
   \<and> search_route ranking_env
         \<lparr>body_query = Some (js_str ''q''), body_limit = Some 1, body_page = Some 2\<rparr> two_docs_world =
       (Ok \<lparr>reply_results =
               [\<lparr>res_id = 1, res_filename = js_str ''a.txt'', res_preview = js_str ''abc'',
                 res_uploadDate = 0, res_similarity = Num 0\<rparr>],
             reply_page = 2, reply_limit = 1\<rparr>,
        two_docs_world\<lparr>provider_calls := [js_str ''q'']\<rparr>)"
proof -
  let ?body = "\<lparr>body_query = Some (js_str ''q''), body_limit = Some 1, body_page = Some 2\<rparr>"
  have 1: "body_query ?body = Some (js_str ''q'')" by simp
  have 2: "js_str ''q'' \<noteq> []" by (simp add: js_str_def)
  have 3: "(1::int) = (case body_limit ?body of None \<Rightarrow> 10 | Some l \<Rightarrow> l)" by simp
  have 4: "(2::int) = (case body_page ?body of None \<Rightarrow> 1 | Some p \<Rightarrow> p)" by simp
  have 5: "(0::int) < 2" by simp
  have 6: "(0::int) < 1" by simp
  have 7: "provider ranking_env (provider_calls two_docs_world) (js_str ''q'') = Reply (Arr [Num 1, Num 0])"
    by (simp add: ranking_env_def sample_env_def)
  have 8: "ranked_rows ranking_env two_docs_world (Float32Array (Arr [Num 1, Num 0])) =
     Some [\<lparr>knn_doc = \<lparr>row_id = 2, filename = js_str ''b.txt'', content_preview = js_str ''abc'',
                         upload_date = 1\<rparr>, knn_distance = Some 0\<rparr>,
           \<lparr>knn_doc = \<lparr>row_id = 1, filename = js_str ''a.txt'', content_preview = js_str ''abc'',
                         upload_date = 0\<rparr>, knn_distance = Some 1\<rparr>]"
    using two_docs_ranked by (simp add: to_float32_0 to_float32_1)
  from search_pagination[OF 1 2 3 4 5 6 7 8] 1 2 7
  show ?thesis by (simp add: to_result_def js_operand_def to_double_0 two_docs_world_def)
qed

section \<open>A stored vector without a distance\<close>

lemma saveDocument_stores:
  assumes "extractText ev filePath = Inr content" "\<not> insert_document_fails ev"
    "generateEmbeddingsForDocument ev content (provider_calls w) = Some (Inr (Some v), calls)"
    "\<not> insert_embedding_fails ev"
  shows "saveDocument ev fname filePath w =
           Some (Inr \<lparr>saved_id = doc_seq w + 1, saved_content = content\<rparr>,
                 \<lparr>documents = documents w @
                      [\<lparr>row_id = doc_seq w + 1, filename = fname,
                        content_preview = js_substring content 0 500 @
                           (if length content > 500 then js_str ''...'' else js_str ''''),
                        upload_date = now ev\<rparr>],
                  embeddings = embeddings w @
                      [\<lparr>emb_id = emb_seq w + 1, emb_doc_id = doc_seq w + 1, vector = map float32 v\<rparr>],
                  doc_seq = doc_seq w + 1, emb_seq = emb_seq w + 1, provider_calls = calls\<rparr>)"
  using assms by (simp add: saveDocument_def Let_def)

lemma to_float32_2: "to_float32 2 = Num 2"
  by (simp add: to_float32_def round_binary_eval[where k=1] round_half_even_def Let_def)

lemma nan_store_replies:
  "provider_replies nan_store_env [replicate 2000 97, [97]] [] =
     map (\<lambda>v. Reply (Arr v)) [[Num 1, Num 2], [Num 3]]"
  by (simp add: nan_store_env_def mismatch_env_def sample_env_def)

lemma nan_store_embedding:
  "generateEmbeddingsForDocument nan_store_env (replicate 2001 97) [] =
     Some (Inr (Some [Num 2, NaN]), [replicate 2000 97, [97]])"
proof -
  have ne: "replicate 2001 (97 :: 16 word) \<noteq> []" by simp
  have u: "[0..<2] = [0, Suc 0]" by (simp add: upt_rec)
  show ?thesis
    using generateEmbeddingsForDocument_arrays(2)[OF mismatch_chunks ne nan_store_replies]
    by (simp add: u js_index_def to_double_1 to_double_2 to_double_4)
qed

lemma sample_embedding:
  "generateEmbeddingsForDocument sample_env (js_str ''abc'') calls =
     Some (Inr (Some [Num 1, Num 0]), calls @ [js_str ''abc''])"
proof -
  have ne: "js_str ''abc'' \<noteq> []" by (simp add: js_str_def)
  have c: "chunkText (js_str ''abc'') None = Some [js_str ''abc'']"
    by (rule chunkText_single) (simp_all add: js_str_def)
  have r: "provider_replies sample_env [js_str ''abc''] calls = map (\<lambda>v. Reply (Arr v)) [[Num 1, Num 0]]"
    by (simp add: sample_env_def)
  have u: "[0..<2] = [0, Suc 0]" by (simp add: upt_rec)
  show ?thesis
    using generateEmbeddingsForDocument_arrays(2)[OF c ne r]
    by (simp add: u js_index_def to_double_0 to_double_1)
qed

lemma nan_world_reachable: "reachable nan_world"
proof -
  let ?w1 = "\<lparr>documents =
        [\<lparr>row_id = 1, filename = js_str ''n.txt'',
          content_preview = replicate 500 97 @ js_str ''...'', upload_date = 0\<rparr>],
      embeddings = [\<lparr>emb_id = 1, emb_doc_id = 1, vector = [Num 2, NaN]\<rparr>],
      doc_seq = 1, emb_seq = 1, provider_calls = [replicate 2000 97, [97]]\<rparr>"
  have 1: "saveDocument nan_store_env (js_str ''n.txt'') (js_str ''n.txt'') init_world =
             Some (Inr \<lparr>saved_id = 1, saved_content = replicate 2001 97\<rparr>, ?w1)"
    using saveDocument_stores[of nan_store_env "js_str ''n.txt''" "replicate 2001 97" init_world
            "[Num 2, NaN]" "[replicate 2000 97, [97]]" "js_str ''n.txt''"] nan_store_embedding
    by (simp add: nan_store_env_def mismatch_env_def sample_env_def init_world_def
          js_substring_take to_float32_2)
  have 2: "saveDocument sample_env (js_str ''a.txt'') (js_str ''a.txt'') ?w1 =
             Some (Inr \<lparr>saved_id = 2, saved_content = js_str ''abc''\<rparr>, nan_world)"
    using saveDocument_stores[of sample_env "js_str ''a.txt''" "js_str ''abc''" ?w1
            "[Num 1, Num 0]" "[replicate 2000 97, [97], js_str ''abc'']" "js_str ''a.txt''"]
          sample_embedding[of "[replicate 2000 97, [97]]"]
    by (simp add: sample_env_def nan_world_def js_substring_take to_float32_0 to_float32_1)
       (simp add: js_str_def)
  show ?thesis
    unfolding reachable_def
    by (rule evolves_save[OF evolves_save[OF evolves_refl 1] 2])
qed

lemma nan_world_ranked:
  "ranked_rows null_distance_env nan_world [Num 1, Num 0] =
     Some [\<lparr>knn_doc = \<lparr>row_id = 1, filename = js_str ''n.txt'',
                         content_preview = replicate 500 97 @ js_str ''...'', upload_date = 0\<rparr>,
             knn_distance = None\<rparr>,
           \<lparr>knn_doc = \<lparr>row_id = 2, filename = js_str ''a.txt'', content_preview = js_str ''abc'',
                         upload_date = 0\<rparr>,
             knn_distance = Some 0\<rparr>]"
  by (simp add: ranked_rows_def joined_def nan_world_def null_distance_env_def sample_env_def)

lemma nan_world_search:
  "searchDocuments null_distance_env (js_str ''q'') (Some 10) (Some 0) nan_world =
     (Inr [\<lparr>res_id = 1, res_filename = js_str ''n.txt'',
            res_preview = replicate 500 97 @ js_str ''...'', res_uploadDate = 0,
            res_similarity = Num 1\<rparr>,
           \<lparr>res_id = 2, res_filename = js_str ''a.txt'', res_preview = js_str ''abc'',
            res_uploadDate = 0, res_similarity = Num 1\<rparr>],
      nan_world\<lparr>provider_calls := [replicate 2000 97, [97], js_str ''abc'', js_str ''q'']\<rparr>)"
proof -
  have p: "provider null_distance_env (provider_calls nan_world) (js_str ''q'') = Reply (Arr [Num 1, Num 0])"
    by (simp add: null_distance_env_def sample_env_def)
  have r: "ranked_rows null_distance_env nan_world (Float32Array (Arr [Num 1, Num 0])) =
     Some [\<lparr>knn_doc = \<lparr>row_id = 1, filename = js_str ''n.txt'',
                         content_preview = replicate 500 97 @ js_str ''...'', upload_date = 0\<rparr>,
             knn_distance = None\<rparr>,
           \<lparr>knn_doc = \<lparr>row_id = 2, filename = js_str ''a.txt'', content_preview = js_str ''abc'',
                         upload_date = 0\<rparr>,
             knn_distance = Some 0\<rparr>]"
    using nan_world_ranked by (simp add: to_float32_0 to_float32_1)
  show ?thesis
    using searchDocuments_Reply[OF p r, of 10 0]
    by (simp add: sql_limit_offset_def to_result_def js_operand_def to_double_1 nan_world_def)
qed

text \<open>
  The claim as stated fails: in a store that two ingestions reach, the document whose vector
  holds a NaN has no cosine distance, and it is ranked first, before the document whose vector
  is the query's own, at distance 0.
\<close>

theorem search_order_counterexample:
  "reachable nan_world
   \<and> ranked_rows null_distance_env nan_world [Num 1, Num 0] =
       Some [\<lparr>knn_doc = \<lparr>row_id = 1, filename = js_str ''n.txt'',
                           content_preview = replicate 500 97 @ js_str ''...'', upload_date = 0\<rparr>,
               knn_distance = None\<rparr>,
             \<lparr>knn_doc = \<lparr>row_id = 2, filename = js_str ''a.txt'', content_preview = js_str ''abc'',
                           upload_date = 0\<rparr>,
               knn_distance = Some 0\<rparr>]
   \<and> search_route null_distance_env
        \<lparr>body_query = Some (js_str ''q''), body_limit = Some 10, body_page = Some 1\<rparr> nan_world =
       (Ok \<lparr>reply_results =
               [\<lparr>res_id = 1, res_filename = js_str ''n.txt'',
                 res_preview = replicate 500 97 @ js_str ''...'', res_uploadDate = 0,
                 res_similarity = Num 1\<rparr>,
                \<lparr>res_id = 2, res_filename = js_str ''a.txt'', res_preview = js_str ''abc'',
                 res_uploadDate = 0, res_similarity = Num 1\<rparr>],
             reply_page = 1, reply_limit = 10\<rparr>,
        nan_world\<lparr>provider_calls := [replicate 2000 97, [97], js_str ''abc'', js_str ''q'']\<rparr>)"
proof -
  have "search_route null_distance_env
        \<lparr>body_query = Some (js_str ''q''), body_limit = Some 10, body_page = Some 1\<rparr> nan_world =
       (Ok \<lparr>reply_results =
               [\<lparr>res_id = 1, res_filename = js_str ''n.txt'',
                 res_preview = replicate 500 97 @ js_str ''...'', res_uploadDate = 0,
                 res_similarity = Num 1\<rparr>,
                \<lparr>res_id = 2, res_filename = js_str ''a.txt'', res_preview = js_str ''abc'',
                 res_uploadDate = 0, res_similarity = Num 1\<rparr>],
             reply_page = 1, reply_limit = 10\<rparr>,
        nan_world\<lparr>provider_calls := [replicate 2000 97, [97], js_str ''abc'', js_str ''q'']\<rparr>)"
    using nan_world_search by (simp add: search_route_def Let_def) (simp add: js_str_def)
  with nan_world_reachable nan_world_ranked show ?thesis by simp
qed

section \<open>Similarity\<close>

lemma set_sql_limit_offset: "set (sql_limit_offset limit offset rows) \<subseteq> set rows"
  by (auto simp: sql_limit_offset_def Let_def dest: in_set_takeD in_set_dropD)

lemma searchDocuments_Inr:
  assumes "searchDocuments ev query limit_arg offset_arg w = (Inr results, w')"
  shows "\<exists>qe ranked rows. provider ev (provider_calls w) query = Reply qe
           \<and> ranked_rows ev w (Float32Array qe) = Some ranked
           \<and> set rows \<subseteq> set ranked \<and> results = map to_result rows"
proof (cases "provider ev (provider_calls w) query")
  case Unreachable
  with assms show ?thesis by (simp add: searchDocuments_def generateEmbedding_def Let_def)
next
  case (Reply qe)
  show ?thesis
  proof (cases "ranked_rows ev w (Float32Array qe)")
    case None
    with assms Reply show ?thesis by (simp add: searchDocuments_def generateEmbedding_def Let_def)
  next
    case (Some ranked)
    with assms Reply obtain limit offset where
      "results = map to_result (sql_limit_offset limit offset ranked)"
      by (auto simp: searchDocuments_def generateEmbedding_def Let_def)
    with Reply Some set_sql_limit_offset[of limit offset ranked] show ?thesis by blast
  qed
qed

text \<open>
  Claim C4, as amended. Every result of a search comes from a row of the ranked set, with the
  value that the vector store reports as the distance of that row. When this value is a
  number, the similarity is \<open>1 - distance\<close>: 1 at distance 0, \<open>- 1\<close> at distance 2, and
  \<open>1 - distance\<close> itself whenever that number is a double; nothing is clipped. When the
  store reports no distance (NULL), the similarity is 1.
\<close>

theorem similarity_is_one_minus_distance:
  assumes "searchDocuments ev query limit_arg offset_arg w = (Inr results, w')"
  shows "\<exists>qe ranked. provider ev (provider_calls w) query = Reply qe
          \<and> ranked_rows ev w (Float32Array qe) = Some ranked
          \<and> (\<forall>r\<in>set results. \<exists>row\<in>set ranked.
                res_id r = row_id (knn_doc row)
              \<and> (\<exists>(d, e)\<in>set (joined w). knn_doc row = d
                    \<and> vec_distance_cosine ev (vector e) (Float32Array qe) = Some (knn_distance row))
              \<and> (\<forall>dist. knn_distance row = Some dist \<longrightarrow>
                    res_similarity r = js_sub (Num 1) (Num dist)
                  \<and> (dist = 0 \<longrightarrow> res_similarity r = Num 1)
                  \<and> (dist = 2 \<longrightarrow> res_similarity r = Num (- 1))
                  \<and> (representable (Num (1 - dist)) \<longrightarrow> res_similarity r = Num (1 - dist)))
              \<and> (knn_distance row = None \<longrightarrow> res_similarity r = Num 1))"
proof -
  from searchDocuments_Inr[OF assms] obtain qe ranked rows where
    s: "provider ev (provider_calls w) query = Reply qe"
       "ranked_rows ev w (Float32Array qe) = Some ranked"
       "set rows \<subseteq> set ranked" "results = map to_result rows"
    by blast
  note d = ranked_rows_docs[OF s(2)]
  have "\<exists>row\<in>set ranked.
                res_id r = row_id (knn_doc row)
              \<and> (\<exists>(d, e)\<in>set (joined w). knn_doc row = d
                    \<and> vec_distance_cosine ev (vector e) (Float32Array qe) = Some (knn_distance row))
              \<and> (\<forall>dist. knn_distance row = Some dist \<longrightarrow>
                    res_similarity r = js_sub (Num 1) (Num dist)
                  \<and> (dist = 0 \<longrightarrow> res_similarity r = Num 1)
                  \<and> (dist = 2 \<longrightarrow> res_similarity r = Num (- 1))
                  \<and> (representable (Num (1 - dist)) \<longrightarrow> res_similarity r = Num (1 - dist)))
              \<and> (knn_distance row = None \<longrightarrow> res_similarity r = Num 1)"
    if "r \<in> set results" for r
  proof -
    from that s(3,4) obtain row where row: "row \<in> set ranked" "r = to_result row" by auto
    from d row(1) have j: "\<exists>(d, e)\<in>set (joined w). knn_doc row = d
        \<and> vec_distance_cosine ev (vector e) (Float32Array qe) = Some (knn_distance row)"
      by blast
    show ?thesis
      using row(1) j
      by (intro bexI[of _ row])
         (simp_all add: row(2) to_result_def js_operand_def to_double_1 to_double_minus_1)
  qed
  with s(1,2) show ?thesis by blast
qed

theorem similarity_is_one_minus_distance_witness:
  "searchDocuments ranking_env (js_str ''q'') (Some 10) (Some 0) two_docs_world =
     (Inr [\<lparr>res_id = 2, res_filename = js_str ''b.txt'', res_preview = js_str ''abc'',
            res_uploadDate = 1, res_similarity = Num 1\<rparr>,
           \<lparr>res_id = 1, res_filename = js_str ''a.txt'', res_preview = js_str ''abc'',
            res_uploadDate = 0, res_similarity = Num 0\<rparr>],
      two_docs_world\<lparr>provider_calls := [js_str ''q'']\<rparr>)
   \<and> (\<exists>qe ranked. provider ranking_env (provider_calls two_docs_world) (js_str ''q'') = Reply qe
          \<and> ranked_rows ranking_env two_docs_world (Float32Array qe) = Some ranked)"
proof -
  have p: "provider ranking_env (provider_calls two_docs_world) (js_str ''q'') = Reply (Arr [Num 1, Num 0])"
    by (simp add: ranking_env_def sample_env_def)
  have r: "ranked_rows ranking_env two_docs_world (Float32Array (Arr [Num 1, Num 0])) =
     Some [\<lparr>knn_doc = \<lparr>row_id = 2, filename = js_str ''b.txt'', content_preview = js_str ''abc'',
                         upload_date = 1\<rparr>, knn_distance = Some 0\<rparr>,
           \<lparr>knn_doc = \<lparr>row_id = 1, filename = js_str ''a.txt'', content_preview = js_str ''abc'',
                         upload_date = 0\<rparr>, knn_distance = Some 1\<rparr>]"
    using two_docs_ranked by (simp add: to_float32_0 to_float32_1)
  have run: "searchDocuments ranking_env (js_str ''q'') (Some 10) (Some 0) two_docs_world =
     (Inr [\<lparr>res_id = 2, res_filename = js_str ''b.txt'', res_preview = js_str ''abc'',
            res_uploadDate = 1, res_similarity = Num 1\<rparr>,
           \<lparr>res_id = 1, res_filename = js_str ''a.txt'', res_preview = js_str ''abc'',
            res_uploadDate = 0, res_similarity = Num 0\<rparr>],
      two_docs_world\<lparr>provider_calls := [js_str ''q'']\<rparr>)"
    using searchDocuments_Reply[OF p r, of 10 0]
    by (simp add: sql_limit_offset_def to_result_def js_operand_def to_double_0 to_double_1
          two_docs_world_def)
  from similarity_is_one_minus_distance[OF run] run show ?thesis by blast
qed

text \<open>
  The claim as stated fails: the first result below has similarity 1, and the vector store
  reports no distance for its vector, which holds a NaN and is not the query's.
\<close>

theorem similarity_null_counterexample:
  "vec_distance_cosine null_distance_env [Num 2, NaN] (Float32Array (Arr [Num 1, Num 0])) = Some None
   \<and> searchDocuments null_distance_env (js_str ''q'') (Some 10) (Some 0) nan_world =
      (Inr [\<lparr>res_id = 1, res_filename = js_str ''n.txt'',
             res_preview = replicate 500 97 @ js_str ''...'', res_uploadDate = 0,
             res_similarity = Num 1\<rparr>,
            \<lparr>res_id = 2, res_filename = js_str ''a.txt'', res_preview = js_str ''abc'',
             res_uploadDate = 0, res_similarity = Num 1\<rparr>],
       nan_world\<lparr>provider_calls := [replicate 2000 97, [97], js_str ''abc'', js_str ''q'']\<rparr>)"
  using nan_world_search by (simp add: null_distance_env_def)

section \<open>Documents without a vector\<close>

lemma joined_has_vector: "(d, e) \<in> set (joined w) \<Longrightarrow> has_vector w (row_id d)"
  by (auto simp: joined_def has_vector_def)

lemma search_results_have_vectors:
  assumes "searchDocuments ev query limit_arg offset_arg w = (Inr results, w')"
  shows "\<forall>r\<in>set results. has_vector w (res_id r)"
proof
  fix r assume r: "r \<in> set results"
  from searchDocuments_Inr[OF assms] obtain qe ranked rows where
    s: "ranked_rows ev w (Float32Array qe) = Some ranked"
       "set rows \<subseteq> set ranked" "results = map to_result rows"
    by blast
  from r s(2,3) obtain row where row: "row \<in> set ranked" "r = to_result row" by auto
  from ranked_rows_docs[OF s(1)] row(1) obtain d e where
    "(d, e) \<in> set (joined w)" "knn_doc row = d" by blast
  then show "has_vector w (res_id r)"
    using joined_has_vector[of d e w] by (simp add: row(2) to_result_def)
qed

lemma search_route_Ok:
  assumes "search_route ev body w = (Ok reply, w')"
  shows "\<exists>query limit_arg offset_arg.
           searchDocuments ev query limit_arg offset_arg w = (Inr (reply_results reply), w')"
proof (cases "body_query body")
  case None
  with assms show ?thesis by (simp add: search_route_def Let_def)
next
  case (Some query)
  let ?limit = "case body_limit body of None \<Rightarrow> 10 | Some l \<Rightarrow> l"
  let ?page = "case body_page body of None \<Rightarrow> 1 | Some p \<Rightarrow> p"
  obtain r w2 where sd: "searchDocuments ev query (Some ?limit) (Some ((?page - 1) * ?limit)) w = (r, w2)"
    by (cases "searchDocuments ev query (Some ?limit) (Some ((?page - 1) * ?limit)) w")
  from assms Some sd have "r = Inr (reply_results reply) \<and> w2 = w'"
    by (cases r) (auto simp: search_route_def Let_def split: if_splits)
  with sd show ?thesis by blast
qed

lemma listed_on_some_page:
  assumes "d \<in> set (documents w)" "0 < limit" "\<not> select_fails ev"
  shows "\<exists>page>0. \<exists>reply. documents_route ev (Some limit) (Some page) w = Ok reply
            \<and> to_summary d \<in> set (reply_documents reply)"
proof -
  let ?L = "rev (sort_key upload_date (documents w))"
  from assms(1) have "d \<in> set ?L" by simp
  then obtain k where k: "k < length ?L" "?L ! k = d" by (metis in_set_conv_nth)
  define n where "n = nat limit"
  have n: "0 < n" "int n = limit" using assms(2) by (simp_all add: n_def)
  define q where "q = k div n"
  let ?page = "int q + 1"
  have off: "nat ((?page - 1) * limit) = q * n"
    using n by (simp add: nat_mult_distrib flip: n(2))
  have lo: "q * n \<le> k" by (simp add: q_def)
  have hi: "k - q * n < n"
    using n(1) by (simp add: q_def minus_mult_div_eq_mod mult.commute)
  have "take n (drop (q * n) ?L) ! (k - q * n) = ?L ! k"
    using lo hi k(1) by simp
  moreover have "k - q * n < length (take n (drop (q * n) ?L))"
    using lo hi k(1) by simp
  ultimately have "d \<in> set (take n (drop (q * n) ?L))"
    using k(2) by (metis nth_mem)
  then have "to_summary d \<in> set (map to_summary (sql_limit_offset limit ((?page - 1) * limit) ?L))"
    using assms(2) off by (simp add: sql_limit_offset_def Let_def n_def)
  then have "\<exists>reply. documents_route ev (Some limit) (Some ?page) w = Ok reply
            \<and> to_summary d \<in> set (reply_documents reply)"
    using assms(3) by (simp add: documents_route_def Let_def)
  moreover have "0 < ?page" by simp
  ultimately show ?thesis by blast
qed

text \<open>What one operation does to the two tables.\<close>

lemma saveDocument_effect:
  assumes "saveDocument ev fname filePath w = Some (r, w')"
  shows "doc_seq w \<le> doc_seq w'
       \<and> set (documents w) \<subseteq> set (documents w')
       \<and> (\<forall>d\<in>set (documents w'). d \<in> set (documents w) \<or> row_id d = doc_seq w + 1 \<and> doc_seq w' = doc_seq w + 1)
       \<and> (\<forall>e\<in>set (embeddings w'). e \<in> set (embeddings w) \<or> emb_doc_id e = doc_seq w + 1 \<and> doc_seq w' = doc_seq w + 1)"
proof (cases "extractText ev filePath")
  case (Inl e)
  with assms show ?thesis by (auto simp: saveDocument_def)
next
  case (Inr content)
  show ?thesis
  proof (cases "insert_document_fails ev")
    case True
    with assms Inr show ?thesis by (auto simp: saveDocument_def Let_def)
  next
    case False
    obtain g calls where g: "generateEmbeddingsForDocument ev content (provider_calls w) = Some (g, calls)"
      using generateEmbeddingsForDocument_returns by blast
    show ?thesis
    proof (cases g)
      case (Inl e)
      with assms Inr False g show ?thesis by (auto simp: saveDocument_def Let_def)
    next
      case (Inr v)
      with assms \<open>extractText ev filePath = Inr content\<close> False g show ?thesis
        by (cases v) (auto simp: saveDocument_def Let_def split: if_splits)
    qed
  qed
qed

lemma searchDocuments_effect:
  assumes "searchDocuments ev query limit_arg offset_arg w = (r, w')"
  shows "documents w' = documents w \<and> embeddings w' = embeddings w \<and> doc_seq w' = doc_seq w"
  using assms
  by (auto simp: searchDocuments_def generateEmbedding_def Let_def
           split: provider_reply.splits option.splits)

lemma evolves_monotone:
  assumes "evolves w w'"
  shows "doc_seq w \<le> doc_seq w'
       \<and> set (documents w) \<subseteq> set (documents w')
       \<and> (\<forall>e\<in>set (embeddings w'). e \<in> set (embeddings w) \<or> doc_seq w < emb_doc_id e)"
  using assms
proof (induction rule: evolves.induct)
  case (evolves_refl w)
  then show ?case by simp
next
  case (evolves_save w w1 ev fname filePath r w2)
  note e = saveDocument_effect[OF evolves_save.hyps(2)]
  have "\<forall>e\<in>set (embeddings w2). e \<in> set (embeddings w) \<or> doc_seq w < emb_doc_id e"
  proof
    fix x assume "x \<in> set (embeddings w2)"
    with e have "x \<in> set (embeddings w1) \<or> emb_doc_id x = doc_seq w1 + 1" by blast
    then show "x \<in> set (embeddings w) \<or> doc_seq w < emb_doc_id x"
      using evolves_save.IH by auto
  qed
  moreover have "doc_seq w \<le> doc_seq w2" using e evolves_save.IH by linarith
  moreover have "set (documents w) \<subseteq> set (documents w2)" using e evolves_save.IH by blast
  ultimately show ?case by simp
next
  case (evolves_search w w1 ev query limit_arg offset_arg r' w2)
  from searchDocuments_effect[OF evolves_search.hyps(2)] evolves_search.IH
  show ?case by simp
qed

lemma evolves_vectors_bounded:
  assumes "evolves w w'" "\<forall>e\<in>set (embeddings w). emb_doc_id e \<le> doc_seq w"
  shows "\<forall>e\<in>set (embeddings w'). emb_doc_id e \<le> doc_seq w'"
  using assms
proof (induction rule: evolves.induct)
  case (evolves_refl w)
  then show ?case by simp
next
  case (evolves_save w w1 ev fname filePath r w2)
  note e = saveDocument_effect[OF evolves_save.hyps(2)]
  from evolves_save.IH[OF evolves_save.prems] have b: "\<forall>e\<in>set (embeddings w1). emb_doc_id e \<le> doc_seq w1" .
  show ?case
  proof
    fix x assume "x \<in> set (embeddings w2)"
    with e have "x \<in> set (embeddings w1) \<or> emb_doc_id x = doc_seq w1 + 1 \<and> doc_seq w2 = doc_seq w1 + 1"
      by blast
    then show "emb_doc_id x \<le> doc_seq w2"
    proof
      assume "x \<in> set (embeddings w1)"
      with b have "emb_doc_id x \<le> doc_seq w1" by blast
      with e show ?thesis by linarith
    next
      assume "emb_doc_id x = doc_seq w1 + 1 \<and> doc_seq w2 = doc_seq w1 + 1"
      then show ?thesis by simp
    qed
  qed
next
  case (evolves_search w w1 ev query limit_arg offset_arg r' w2)
  from searchDocuments_effect[OF evolves_search.hyps(2)] evolves_search.IH[OF evolves_search.prems]
  show ?case by simp
qed

lemma reachable_vectors_bounded:
  "reachable w \<Longrightarrow> \<forall>e\<in>set (embeddings w). emb_doc_id e \<le> doc_seq w"
proof -
  assume "reachable w"
  then have e: "evolves init_world w" by (simp add: reachable_def)
  have "\<forall>e\<in>set (embeddings init_world). emb_doc_id e \<le> doc_seq init_world"
    by (simp add: init_world_def)
  with e show ?thesis by (rule evolves_vectors_bounded)
qed

lemma failed_embedding_never_gets_vector:
  assumes "reachable w0" "extractText ev filePath = Inr content"
    "embedding_failed_or_skipped ev content w0"
    "saveDocument ev fname filePath w0 = Some (Inr res, w1)" "evolves w1 w"
  shows "(\<exists>d\<in>set (documents w). row_id d = saved_id res) \<and> \<not> has_vector w (saved_id res)"
proof -
  have nf: "\<not> insert_document_fails ev"
    using assms(2,4) by (auto simp: saveDocument_def Let_def split: if_splits)
  obtain g calls where g: "generateEmbeddingsForDocument ev content (provider_calls w0) = Some (g, calls)"
    using generateEmbeddingsForDocument_returns by blast
  with assms(3) have "(\<exists>e. g = Inl e) \<or> g = Inr None"
    by (cases g) (auto simp: embedding_failed_or_skipped_def split: option.splits)
  then obtain e where ge: "g = Inl e \<or> g = Inr None" by blast
  from saveDocument_no_vector[OF assms(2) nf g ge, of fname] assms(4)
  have w1: "saved_id res = doc_seq w0 + 1" "doc_seq w1 = doc_seq w0 + 1"
    "embeddings w1 = embeddings w0"
    "\<exists>d\<in>set (documents w1). row_id d = doc_seq w0 + 1"
    by auto
  note m = evolves_monotone[OF assms(5)]
  from w1(4) m have 1: "\<exists>d\<in>set (documents w). row_id d = saved_id res"
    unfolding w1(1) by blast
  have 2: "\<not> has_vector w (saved_id res)"
  proof
    assume "has_vector w (saved_id res)"
    then obtain x where x: "x \<in> set (embeddings w)" "emb_doc_id x = saved_id res"
      by (auto simp: has_vector_def)
    with m have "x \<in> set (embeddings w1) \<or> doc_seq w1 < emb_doc_id x" by blast
    then show False
    proof
      assume "x \<in> set (embeddings w1)"
      with w1(3) reachable_vectors_bounded[OF assms(1)] have "emb_doc_id x \<le> doc_seq w0" by simp
      with x(2) w1(1) show False by simp
    next
      assume "doc_seq w1 < emb_doc_id x"
      with x(2) w1(1,2) show False by simp
    qed
  qed
  from 1 2 show ?thesis by simp
qed

text \<open>
  Claim C9. In every reachable state, a document of the catalog with no stored vector is in
  the results of no search, whatever the environment, the query, the limit and the page, and
  for every positive limit it is on some page of the catalog listing. Every document whose
  ingestion resolved while its embedding failed or was skipped is such a document, in the
  state after the ingestion and in every later one.
\<close>

theorem no_vector_listed_not_searched:
  assumes "reachable w"
  shows "(\<forall>d\<in>set (documents w). \<not> has_vector w (row_id d) \<longrightarrow>
            (\<forall>ev body reply w'. search_route ev body w = (Ok reply, w') \<longrightarrow>
                row_id d \<notin> res_id ` set (reply_results reply))
          \<and> (\<forall>ev limit. 0 < limit \<and> \<not> select_fails ev \<longrightarrow>
                (\<exists>page>0. \<exists>reply. documents_route ev (Some limit) (Some page) w = Ok reply
                   \<and> to_summary d \<in> set (reply_documents reply))))
       \<and> (\<forall>w0 ev fname filePath content res w1.
             reachable w0 \<and> extractText ev filePath = Inr content
             \<and> embedding_failed_or_skipped ev content w0
             \<and> saveDocument ev fname filePath w0 = Some (Inr res, w1) \<and> evolves w1 w \<longrightarrow>
             (\<exists>d\<in>set (documents w). row_id d = saved_id res) \<and> \<not> has_vector w (saved_id res))"
proof -
  have a: "row_id d \<notin> res_id ` set (reply_results reply)"
    if "\<not> has_vector w (row_id d)" "search_route ev body w = (Ok reply, w')"
    for d :: doc_row and ev body reply w'
  proof
    assume "row_id d \<in> res_id ` set (reply_results reply)"
    then obtain r where r: "r \<in> set (reply_results reply)" "res_id r = row_id d" by auto
    from search_route_Ok[OF that(2)] obtain query limit_arg offset_arg where
      "searchDocuments ev query limit_arg offset_arg w = (Inr (reply_results reply), w')" by blast
    from search_results_have_vectors[OF this] r have "has_vector w (row_id d)" by auto
    with that(1) show False by simp
  qed
  have b: "\<exists>page>0. \<exists>reply. documents_route ev (Some limit) (Some page) w = Ok reply
                   \<and> to_summary d \<in> set (reply_documents reply)"
    if "d \<in> set (documents w)" "0 < limit \<and> \<not> select_fails ev" for d ev limit
    using listed_on_some_page[of d w limit ev] that by blast
  have c: "(\<exists>d\<in>set (documents w). row_id d = saved_id res) \<and> \<not> has_vector w (saved_id res)"
    if "reachable w0 \<and> extractText ev filePath = Inr content
             \<and> embedding_failed_or_skipped ev content w0
             \<and> saveDocument ev fname filePath w0 = Some (Inr res, w1) \<and> evolves w1 w"
    for w0 ev fname filePath content res w1
    using failed_embedding_never_gets_vector[of w0 ev filePath content fname res w1 w] that by blast
  show ?thesis
    using a b c by blast
qed

lemma unreachable_save:
  "saveDocument unreachable_env (js_str ''a.txt'') (js_str ''a.txt'') init_world =
     Some (Inr \<lparr>saved_id = 1, saved_content = js_str ''abc''\<rparr>, one_doc_world)"
proof -
  have 1: "extractText unreachable_env (js_str ''a.txt'') = Inr (js_str ''abc'')"
    by (simp add: unreachable_env_def sample_env_def)
  have 2: "\<not> insert_document_fails unreachable_env"
    by (simp add: unreachable_env_def sample_env_def)
  have 3: "generateEmbeddingsForDocument unreachable_env (js_str ''abc'') (provider_calls init_world)
             = Some (Inl EmbeddingFailed, [js_str ''abc''])"
    using generateEmbeddingsForDocument_unreachable[of "js_str ''abc''" unreachable_env "[]"]
    by (simp add: js_str_def init_world_def unreachable_env_def)
  from saveDocument_no_vector[OF 1 2 3, of EmbeddingFailed "js_str ''a.txt''"]
  show ?thesis
    by (simp add: init_world_def one_doc_world_def js_substring_take unreachable_env_def sample_env_def)
       (simp add: js_str_def)
qed

lemma unreachable_skipped:
  "embedding_failed_or_skipped unreachable_env (js_str ''abc'') init_world"
  using generateEmbeddingsForDocument_unreachable[of "js_str ''abc''" unreachable_env "[]"]
  by (simp add: embedding_failed_or_skipped_def js_str_def init_world_def unreachable_env_def)

theorem no_vector_listed_not_searched_witness:
  "reachable one_doc_world
   \<and> \<lparr>row_id = 1, filename = js_str ''a.txt'', content_preview = js_str ''abc'', upload_date = 0\<rparr>
        \<in> set (documents one_doc_world)
   \<and> \<not> has_vector one_doc_world 1
   \<and> search_route sample_env \<lparr>body_query = Some (js_str ''q''), body_limit = None, body_page = None\<rparr>
        one_doc_world =
       (Ok \<lparr>reply_results = [], reply_page = 1, reply_limit = 10\<rparr>,
        one_doc_world\<lparr>provider_calls := [js_str ''abc'', js_str ''q'']\<rparr>)
   \<and> (\<exists>page>0. \<exists>reply. documents_route sample_env (Some 10) (Some page) one_doc_world = Ok reply
          \<and> \<lparr>sum_id = 1, sum_filename = js_str ''a.txt'', sum_preview = js_str ''abc'',
              sum_uploadDate = 0\<rparr> \<in> set (reply_documents reply))
   \<and> reachable init_world
   \<and> extractText unreachable_env (js_str ''a.txt'') = Inr (js_str ''abc'')
   \<and> embedding_failed_or_skipped unreachable_env (js_str ''abc'') init_world
   \<and> saveDocument unreachable_env (js_str ''a.txt'') (js_str ''a.txt'') init_world =
        Some (Inr \<lparr>saved_id = 1, saved_content = js_str ''abc''\<rparr>, one_doc_world)
   \<and> evolves one_doc_world one_doc_world"
proof -
  let ?d = "\<lparr>row_id = 1, filename = js_str ''a.txt'', content_preview = js_str ''abc'', upload_date = 0\<rparr>"
  have r0: "reachable init_world" by (simp add: reachable_def evolves_refl)
  have r1: "reachable one_doc_world"
    unfolding reachable_def using evolves_save[OF evolves_refl unreachable_save] .
  have d: "?d \<in> set (documents one_doc_world)" by (simp add: one_doc_world_def)
  have nv: "\<not> has_vector one_doc_world (row_id ?d)" by (simp add: has_vector_def one_doc_world_def)
  have s: "search_route sample_env \<lparr>body_query = Some (js_str ''q''), body_limit = None, body_page = None\<rparr>
        one_doc_world =
       (Ok \<lparr>reply_results = [], reply_page = 1, reply_limit = 10\<rparr>,
        one_doc_world\<lparr>provider_calls := [js_str ''abc'', js_str ''q'']\<rparr>)"
    by (simp add: search_route_def searchDocuments_def generateEmbedding_def Let_def ranked_rows_def
          joined_def sql_limit_offset_def one_doc_world_def sample_env_def)
       (simp add: js_str_def)
  have e: "extractText unreachable_env (js_str ''a.txt'') = Inr (js_str ''abc'')"
    by (simp add: unreachable_env_def sample_env_def)
  have nf: "(0::int) < 10 \<and> \<not> select_fails sample_env" by (simp add: sample_env_def)
  note t = no_vector_listed_not_searched[OF r1]
  from t d nv nf have "\<exists>page>0. \<exists>reply. documents_route sample_env (Some 10) (Some page) one_doc_world = Ok reply
          \<and> to_summary ?d \<in> set (reply_documents reply)"
    by blast
  then have l: "\<exists>page>0. \<exists>reply. documents_route sample_env (Some 10) (Some page) one_doc_world = Ok reply
          \<and> \<lparr>sum_id = 1, sum_filename = js_str ''a.txt'', sum_preview = js_str ''abc'',
              sum_uploadDate = 0\<rparr> \<in> set (reply_documents reply)"
    by (simp add: to_summary_def)
  from r1 d nv s l r0 e unreachable_skipped unreachable_save evolves_refl[of one_doc_world]
  show ?thesis by simp
qed

section \<open>Mean pooling\<close>

lemma chunkText_three:
  assumes "4000 < length t" "length t \<le> 6000"
  shows "chunkText t None = Some [take 2000 t, take 2000 (drop 2000 t), drop 4000 t]"
proof -
  have ne: "t \<noteq> []" using assms by auto
  have s1: "js_slice t 0 2000 = take 2000 t"
    using assms by (simp add: js_slice_def Let_def min_def)
  have s2: "js_slice t 2000 4000 = take 2000 (drop 2000 t)"
    using js_slice_chunk[of 2000 2000 t] by simp
  have "js_slice t 4000 6000 = take 2000 (drop 4000 t)"
    using js_slice_chunk[of 4000 2000 t] by simp
  then have s3: "js_slice t 4000 6000 = drop 4000 t"
    using assms by simp
  have "chunk_loop t 2000 0 [] = chunk_loop t 2000 2000 [take 2000 t]"
    using ne by (subst chunk_loop.simps) (simp add: s1)
  also have "\<dots> = chunk_loop t 2000 4000 [take 2000 t, take 2000 (drop 2000 t)]"
    using assms by (subst chunk_loop.simps) (simp add: s2)
  also have "\<dots> = chunk_loop t 2000 6000 [take 2000 t, take 2000 (drop 2000 t), drop 4000 t]"
    using assms by (subst chunk_loop.simps) (simp add: s3)
  also have "\<dots> = Some [take 2000 t, take 2000 (drop 2000 t), drop 4000 t]"
    using assms by (subst chunk_loop.simps) simp
  finally show ?thesis by (simp add: chunkText_def chunk_size_or_default_def)
qed

lemma foldl_js_add_exact:
  "sums_exact acc xs \<Longrightarrow> foldl js_add (Num acc) (map Num xs) = Num (acc + sum_list xs)"
  by (induction xs arbitrary: acc) (simp_all add: add.assoc)

lemma sum_list_column_mset:
  assumes "mset vs' = mset vs"
  shows "sum_list (column vs' i) = sum_list (column vs i)"
proof -
  have "sum_list (map (\<lambda>v. v ! i) us) = sum_mset (image_mset (\<lambda>v. v ! i) (mset us))"
    for us :: "rat list list"
    by (metis mset_map sum_mset_sum_list)
  then show ?thesis using assms by (simp add: column_def)
qed

lemma avgEmbedding_arrays_of:
  assumes "vs \<noteq> []" "\<forall>v\<in>set vs. length v = n"
  shows "avgEmbedding (arrays_of vs) =
           Inr (map (\<lambda>i. js_div_length (foldl js_add (Num 0) (map Num (column vs i))) (length vs))
                    [0..<n])"
proof -
  have hd: "length (hd vs) = n" using assms by (cases vs) auto
  have col: "map (\<lambda>v. js_index v i) (map (map Num) vs) = map Num (column vs i)" if "i < n" for i
    using assms(2) that by (simp add: column_def js_index_def)
  have "avgEmbedding (map Arr (map (map Num) vs)) =
          Inr (map (\<lambda>i. js_div_length
                 (foldl js_add (Num 0) (map (\<lambda>v. js_index v i) (map (map Num) vs)))
                 (length (map (map Num) vs)))
               [0..<length (hd (map (map Num) vs))])"
    using assms(1) by (intro avgEmbedding_arrays) simp
  also have "length (hd (map (map Num) vs)) = n"
    using assms(1) hd by (simp add: hd_map)
  also have "map (\<lambda>i. js_div_length
                 (foldl js_add (Num 0) (map (\<lambda>v. js_index v i) (map (map Num) vs)))
                 (length (map (map Num) vs))) [0..<n]
           = map (\<lambda>i. js_div_length (foldl js_add (Num 0) (map Num (column vs i))) (length vs)) [0..<n]"
    using col by simp
  finally show ?thesis by (simp add: arrays_of_def)
qed

lemma avgEmbedding_exact:
  assumes "vs \<noteq> []" "\<forall>v\<in>set vs. length v = n" "\<forall>i<n. sums_exact 0 (column vs i)"
  shows "avgEmbedding (arrays_of vs) =
           Inr (map (\<lambda>i. to_double (sum_list (column vs i) / of_nat (length vs))) [0..<n])"
proof -
  have "js_div_length (foldl js_add (Num 0) (map Num (column vs i))) (length vs)
          = to_double (sum_list (column vs i) / of_nat (length vs))" if "i < n" for i
    using foldl_js_add_exact[of 0 "column vs i"] assms(1,3) that by simp
  then show ?thesis
    unfolding avgEmbedding_arrays_of[OF assms(1,2)] by simp
qed

text \<open>
  Claim C2, as amended. For every non-empty list of per-chunk vectors of finite numbers and
  equal length, position \<open>i\<close> of the combined vector is the quotient, in double arithmetic,
  of the left-to-right double sum of position \<open>i\<close> over the vectors by their number; this is
  what \<open>generateEmbeddingsForDocument\<close> returns when the provider answers with these vectors.
  When no addition of these sums rounds, position \<open>i\<close> is the arithmetic mean of position \<open>i\<close>
  rounded to a double, and an order of the same vectors whose sums do not round either gives
  the same combined vector.
\<close>

theorem mean_pooling_exact_sums:
  assumes "vs \<noteq> []" "\<forall>v\<in>set vs. length v = n"
  shows "avgEmbedding (arrays_of vs) =
           Inr (map (\<lambda>i. js_div_length (foldl js_add (Num 0) (map Num (column vs i))) (length vs))
                    [0..<n])
       \<and> (\<forall>ev content chunks calls.
             chunkText content None = Some chunks \<and> content \<noteq> []
             \<and> provider_replies ev chunks calls = map (\<lambda>v. Reply (Arr (map Num v))) vs \<longrightarrow>
             (\<exists>avg. generateEmbeddingsForDocument ev content calls = Some (Inr (Some avg), calls @ chunks)
                    \<and> avgEmbedding (arrays_of vs) = Inr avg))
       \<and> ((\<forall>i<n. sums_exact 0 (column vs i)) \<longrightarrow>
             avgEmbedding (arrays_of vs) =
               Inr (map (\<lambda>i. to_double (sum_list (column vs i) / of_nat (length vs))) [0..<n]))
       \<and> (\<forall>vs'. mset vs' = mset vs
             \<and> (\<forall>i<n. sums_exact 0 (column vs i)) \<and> (\<forall>i<n. sums_exact 0 (column vs' i)) \<longrightarrow>
             avgEmbedding (arrays_of vs') = avgEmbedding (arrays_of vs))"
proof -
  note a = avgEmbedding_arrays_of[OF assms]
  have b: "\<exists>avg. generateEmbeddingsForDocument ev content calls = Some (Inr (Some avg), calls @ chunks)
                    \<and> avgEmbedding (arrays_of vs) = Inr avg"
    if "chunkText content None = Some chunks \<and> content \<noteq> []
             \<and> provider_replies ev chunks calls = map (\<lambda>v. Reply (Arr (map Num v))) vs"
    for ev content chunks calls
  proof -
    from that have r: "provider_replies ev chunks calls = map (\<lambda>v. Reply (Arr v)) (map (map Num) vs)"
      by simp
    from generateEmbeddingsForDocument_arrays(2)[OF _ _ r] that
    have "generateEmbeddingsForDocument ev content calls =
           Some (Inr (Some (map (\<lambda>i. js_div_length
                     (foldl js_add (Num 0) (map (\<lambda>v. js_index v i) (map (map Num) vs)))
                     (length (map (map Num) vs)))
                  [0..<length (hd (map (map Num) vs))])), calls @ chunks)"
      by blast
    moreover have "avgEmbedding (arrays_of vs) =
           Inr (map (\<lambda>i. js_div_length
                     (foldl js_add (Num 0) (map (\<lambda>v. js_index v i) (map (map Num) vs)))
                     (length (map (map Num) vs)))
                  [0..<length (hd (map (map Num) vs))])"
      using avgEmbedding_arrays[of "map (map Num) vs"] assms(1) by (simp add: arrays_of_def)
    ultimately show ?thesis by simp
  qed
  have c: "avgEmbedding (arrays_of vs) =
               Inr (map (\<lambda>i. to_double (sum_list (column vs i) / of_nat (length vs))) [0..<n])"
    if "\<forall>i<n. sums_exact 0 (column vs i)"
    using avgEmbedding_exact[OF assms that] .
  have d: "avgEmbedding (arrays_of vs') = avgEmbedding (arrays_of vs)"
    if "mset vs' = mset vs
             \<and> (\<forall>i<n. sums_exact 0 (column vs i)) \<and> (\<forall>i<n. sums_exact 0 (column vs' i))"
    for vs'
  proof -
    from that have m: "mset vs' = mset vs" by simp
    then have "set vs' = set vs" by (metis set_mset_mset)
    with assms(2) have l': "\<forall>v\<in>set vs'. length v = n" by simp
    from m have len: "length vs' = length vs" by (metis size_mset)
    with assms(1) have ne': "vs' \<noteq> []" by auto
    from that have "avgEmbedding (arrays_of vs') =
        Inr (map (\<lambda>i. to_double (sum_list (column vs' i) / of_nat (length vs'))) [0..<n])"
      by (intro avgEmbedding_exact[OF ne' l']) simp
    also have "\<dots> = Inr (map (\<lambda>i. to_double (sum_list (column vs i) / of_nat (length vs))) [0..<n])"
      by (simp add: len sum_list_column_mset[OF m])
    also have "\<dots> = avgEmbedding (arrays_of vs)"
      using c that by simp
    finally show ?thesis .
  qed
  from a b c d show ?thesis by blast
qed

lemma to_double_half: "to_double (1 / 2) = Num (1 / 2)"
  by (simp add: to_double_def round_binary_eval[where k="- 1"] round_half_even_def Let_def)

theorem mean_pooling_exact_sums_witness:
  "[[1], [0::rat]] \<noteq> [] \<and> length [1::rat] = 1 \<and> length [0::rat] = 1
   \<and> mset [[0], [1::rat]] = mset [[1], [0]]
   \<and> sums_exact 0 (column [[1], [0]] 0) \<and> sums_exact 0 (column [[0], [1]] 0)
   \<and> avgEmbedding (arrays_of [[1], [0]]) = Inr [Num (1 / 2)]
   \<and> avgEmbedding (arrays_of [[0], [1]]) = Inr [Num (1 / 2)]"
proof -
  have 1: "[[1], [0::rat]] \<noteq> []" by simp
  have 2: "\<forall>v\<in>set [[1], [0::rat]]. length v = 1" by simp
  have 3: "mset [[0], [1::rat]] = mset [[1], [0]]" by simp
  have 4: "\<forall>i<1. sums_exact 0 (column [[1], [0]] i)"
    by (simp add: column_def to_double_1)
  have 5: "\<forall>i<1. sums_exact 0 (column [[0], [1]] i)"
    by (simp add: column_def to_double_0 to_double_1)
  note t = mean_pooling_exact_sums[OF 1 2]
  from t 4 have a: "avgEmbedding (arrays_of [[1], [0]]) =
      Inr (map (\<lambda>i. to_double (sum_list (column [[1], [0]] i) / of_nat (length [[1], [0::rat]]))) [0..<1])"
    by blast
  then have a': "avgEmbedding (arrays_of [[1], [0]]) = Inr [Num (1 / 2)]"
    by (simp add: column_def to_double_half)
  from t 3 4 5 have "avgEmbedding (arrays_of [[0], [1]]) = avgEmbedding (arrays_of [[1], [0]])"
    by blast
  with a' 1 3 4 5 show ?thesis by simp
qed

lemma to_double_2_53: "to_double 9007199254740992 = Num 9007199254740992"
  by (simp add: to_double_def round_binary_eval[where k=53] round_half_even_def Let_def)

lemma to_double_2_53_plus_1: "to_double 9007199254740993 = Num 9007199254740992"
  by (simp add: to_double_def round_binary_eval[where k=53] round_half_even_def Let_def)

lemma to_double_third: "to_double (1 / 3) = Num (6004799503160661 / 18014398509481984)"
  by (simp add: to_double_def round_binary_eval[where k="- 2"] round_half_even_def Let_def)

lemma order_chunks:
  "chunkText (replicate 4001 97) None = Some [replicate 2000 97, replicate 2000 97, [97]]"
  using chunkText_three[of "replicate 4001 97"] by simp

text \<open>
  The claim as stated fails: the same three vectors \<open>(2\<^sup>5\<^sup>3)\<close>, \<open>(1)\<close> and \<open>(- 2\<^sup>5\<^sup>3)\<close>, received
  in two orders, give the combined vectors \<open>(0)\<close> and \<open>(0.333...)\<close>, since \<open>2\<^sup>5\<^sup>3 + 1\<close> rounds to
  \<open>2\<^sup>5\<^sup>3\<close>; the first is not the arithmetic mean either.
\<close>

theorem mean_pooling_order_counterexample:
  "generateEmbeddingsForDocument order_env_a (replicate 4001 97) [] =
     Some (Inr (Some [Num 0]), [replicate 2000 97, replicate 2000 97, [97]])
   \<and> generateEmbeddingsForDocument order_env_b (replicate 4001 97) [] =
     Some (Inr (Some [Num (6004799503160661 / 18014398509481984)]),
           [replicate 2000 97, replicate 2000 97, [97]])
   \<and> provider_replies order_env_a [replicate 2000 97, replicate 2000 97, [97]] [] =
       [Reply (Arr [Num 9007199254740992]), Reply (Arr [Num 1]), Reply (Arr [Num (- 9007199254740992)])]
   \<and> provider_replies order_env_b [replicate 2000 97, replicate 2000 97, [97]] [] =
       [Reply (Arr [Num 9007199254740992]), Reply (Arr [Num (- 9007199254740992)]), Reply (Arr [Num 1])]"
proof -
  have ra: "provider_replies order_env_a [replicate 2000 97, replicate 2000 97, [97]] [] =
       map (\<lambda>v. Reply (Arr v)) [[Num 9007199254740992], [Num 1], [Num (- 9007199254740992)]]"
    by (simp add: order_env_a_def sample_env_def)
  have rb: "provider_replies order_env_b [replicate 2000 97, replicate 2000 97, [97]] [] =
       map (\<lambda>v. Reply (Arr v)) [[Num 9007199254740992], [Num (- 9007199254740992)], [Num 1]]"
    by (simp add: order_env_b_def sample_env_def)
  have ne: "replicate 4001 (97 :: 16 word) \<noteq> []" by simp
  have a: "generateEmbeddingsForDocument order_env_a (replicate 4001 97) [] =
     Some (Inr (Some [Num 0]), [replicate 2000 97, replicate 2000 97, [97]])"
    using generateEmbeddingsForDocument_arrays(2)[OF order_chunks ne ra]
    by (simp add: js_index_def to_double_0 to_double_2_53 to_double_2_53_plus_1)
  have b: "generateEmbeddingsForDocument order_env_b (replicate 4001 97) [] =
     Some (Inr (Some [Num (6004799503160661 / 18014398509481984)]),
           [replicate 2000 97, replicate 2000 97, [97]])"
    using generateEmbeddingsForDocument_arrays(2)[OF order_chunks ne rb]
    by (simp add: js_index_def to_double_0 to_double_1 to_double_2_53 to_double_third)
  from a b ra rb show ?thesis by simp
qed

end
